theory Spec2Isabelle
  imports Main
begin

section \<open>Data model (src/types/index.ts)\<close>

text \<open>
  A JavaScript \<open>Error\<close> is its message. Every \<open>throw\<close>, rejected promise and
  \<open>catch\<close> of the source is a branch over \<open>error + 'a\<close> (\<open>Inl\<close> the error).
\<close>

datatype error = Error string

datatype Theme = Light | Dark

datatype EntryStatus = Success | Failed

datatype MonitorStatus = Active | Checking | ErrorStatus

record Config =
  checkIntervalMinutes :: int
  theme :: Theme
  lastKnownIp :: "string option"
  createdAt :: string
  updatedAt :: string
  lastForceUpdateTime :: "string option"

record UpdateEntry =
  entryId :: string
  timestamp :: string
  oldIp :: "string option"
  newIp :: string
  status :: EntryStatus
  dnsRecordUpdated :: bool

record UpdateHistory =
  updates :: "UpdateEntry list"

section \<open>Cloudflare data (src/services/cloudflare.ts)\<close>

record CloudflareRecord =
  recordId :: string
  rtype :: string
  rname :: string
  content :: string
  ttl :: int
  proxied :: "bool option"

text \<open>
  \<open>errors\<close> keeps the \<open>code\<close> of each element of the provider's error array;
  \<open>result\<close> is the record array of a listing (\<open>None\<close> when the field is null or absent).
\<close>

record CloudflareApiResponse =
  success :: bool
  errors :: "int list"
  result :: "CloudflareRecord list option"

text \<open>The object literal that \<open>updateRecord\<close> sends as the body of its PUT.\<close>

record Payload =
  p_type :: string
  p_name :: string
  p_content :: string
  p_ttl :: int
  p_proxied :: bool

section \<open>Observable effects\<close>

text \<open>
  Every call that leaves the process or touches a file is appended to a chronological
  trace. Of the console output only the two lines that mark the start of a cycle and the
  stop of the monitor are kept.
\<close>

datatype event =
    HttpGet string
  | Sleep int
  | CfRequest string string "Payload option"
  | ConfigWritten Config
  | HistoryWritten UpdateHistory
  | ConsoleLog string

section \<open>The environment of one reconciliation cycle\<close>

datatype http_result =
    Response int string
  | Timeout
  | NetError string

text \<open>
  What the outside world answers during one cycle. \<open>ipHttp url k\<close> is the outcome of the
  \<open>k\<close>-th attempt (counted from 0) against the IP source \<open>url\<close>; \<open>jsonParse\<close> stands for
  \<open>JSON.parse\<close> restricted to the string-valued fields of an object (\<open>None\<close> when it
  throws); the three Cloudflare exchanges of a cycle are answered by \<open>dnsReadResp\<close> (the
  monitor's own read), \<open>updReadResp\<close> (the read inside \<open>updateDnsRecord\<close>) and
  \<open>updPutResp\<close> (the PUT), \<open>Inl\<close> being a timeout, a socket error or an unparsable body.
  \<open>randomUUID()\<close> and \<open>new Date().toISOString()\<close> are given per call site.
\<close>

record env =
  ipHttp :: "string \<Rightarrow> nat \<Rightarrow> http_result"
  jsonParse :: "string \<Rightarrow> (string \<Rightarrow> string option) option"
  CLOUDFLARE_API_TOKEN :: "string option"
  CLOUDFLARE_ZONE_ID :: "string option"
  DNS_RECORD_NAME :: "string option"
  dnsReadResp :: "error + CloudflareApiResponse"
  updReadResp :: "error + CloudflareApiResponse"
  updPutResp :: "error + CloudflareApiResponse"
  uuidUpdate :: string
  nowUpdate :: string
  uuidFailure :: string
  nowFailure :: string
  nowConfig :: string

section \<open>String helpers of the JavaScript runtime\<close>

fun startsWith :: "string \<Rightarrow> string \<Rightarrow> bool" where
  "startsWith s [] = True"
| "startsWith [] (c # cs) = False"
| "startsWith (x # xs) (c # cs) = (x = c \<and> startsWith xs cs)"

text \<open>\<open>String.prototype.includes\<close>: a substring test.\<close>

fun str_includes :: "string \<Rightarrow> string \<Rightarrow> bool" where
  "str_includes [] sub = (sub = [])"
| "str_includes (x # xs) sub = (startsWith (x # xs) sub \<or> str_includes xs sub)"

text \<open>\<open>process.env.X?.includes(sub)\<close>: undefined (falsy) when the variable is unset.\<close>

definition opt_includes :: "string option \<Rightarrow> string \<Rightarrow> bool" where
  "opt_includes v sub = (case v of None \<Rightarrow> False | Some s \<Rightarrow> str_includes s sub)"

text \<open>
  A JavaScript string is held as the bytes of its UTF-8 encoding. \<open>whiteSpace\<close> lists
  the encodings of the code points that \<open>String.prototype.trim\<close> strips, the WhiteSpace
  and LineTerminator productions of ECMAScript: U+0009 to U+000D, U+0020, U+00A0, U+1680,
  U+2000 to U+200A, U+2028, U+2029, U+202F, U+205F, U+3000 and U+FEFF.
\<close>

definition endsWith :: "string \<Rightarrow> string \<Rightarrow> bool" where
  "endsWith s suffix = startsWith (rev s) (rev suffix)"

definition whiteSpace :: "string list" where
  "whiteSpace =
     [[CHR 0x09], [CHR 0x0A], [CHR 0x0B], [CHR 0x0C], [CHR 0x0D], [CHR 0x20],
      [CHR 0xC2, CHR 0xA0],
      [CHR 0xE1, CHR 0x9A, CHR 0x80],
      [CHR 0xE2, CHR 0x80, CHR 0x80], [CHR 0xE2, CHR 0x80, CHR 0x81],
      [CHR 0xE2, CHR 0x80, CHR 0x82], [CHR 0xE2, CHR 0x80, CHR 0x83],
      [CHR 0xE2, CHR 0x80, CHR 0x84], [CHR 0xE2, CHR 0x80, CHR 0x85],
      [CHR 0xE2, CHR 0x80, CHR 0x86], [CHR 0xE2, CHR 0x80, CHR 0x87],
      [CHR 0xE2, CHR 0x80, CHR 0x88], [CHR 0xE2, CHR 0x80, CHR 0x89],
      [CHR 0xE2, CHR 0x80, CHR 0x8A],
      [CHR 0xE2, CHR 0x80, CHR 0xA8], [CHR 0xE2, CHR 0x80, CHR 0xA9],
      [CHR 0xE2, CHR 0x80, CHR 0xAF],
      [CHR 0xE2, CHR 0x81, CHR 0x9F],
      [CHR 0xE3, CHR 0x80, CHR 0x80],
      [CHR 0xEF, CHR 0xBB, CHR 0xBF]]"

text \<open>\<open>trimStart\<close> strips white space from the front for as long as there is some.\<close>

function trimStart :: "string \<Rightarrow> string" where
  "trimStart s =
     (case find (startsWith s) whiteSpace of
        None \<Rightarrow> s
      | Some ws \<Rightarrow> trimStart (drop (length ws) s))"
  by pat_completeness auto
termination
proof (relation "measure length")
  show "wf (measure length)" by simp
next
  fix s ws assume found: "find (startsWith s) whiteSpace = Some ws"
  have shorter: "startsWith t p \<Longrightarrow> length p \<le> length t" for t p
    by (induction t p rule: startsWith.induct) auto
  from found have "ws \<in> set whiteSpace" and "startsWith s ws"
    by (auto simp: find_Some_iff)
  then have "ws \<noteq> []" and "length ws \<le> length s"
    by (auto simp: whiteSpace_def dest: shorter)
  then show "(drop (length ws) s, s) \<in> measure length" by (cases ws) auto
qed

declare trimStart.simps [simp del]

function trimEnd :: "string \<Rightarrow> string" where
  "trimEnd s =
     (case find (endsWith s) whiteSpace of
        None \<Rightarrow> s
      | Some ws \<Rightarrow> trimEnd (take (length s - length ws) s))"
  by pat_completeness auto
termination
proof (relation "measure length")
  show "wf (measure length)" by simp
next
  fix s ws assume found: "find (endsWith s) whiteSpace = Some ws"
  have shorter: "startsWith t p \<Longrightarrow> length p \<le> length t" for t p
    by (induction t p rule: startsWith.induct) auto
  from found have "ws \<in> set whiteSpace" and "startsWith (rev s) (rev ws)"
    by (auto simp: find_Some_iff endsWith_def)
  then have "ws \<noteq> []" and "length ws \<le> length s"
    by (auto simp: whiteSpace_def dest: shorter)
  then show "(take (length s - length ws) s, s) \<in> measure length" by (cases ws) auto
qed

declare trimEnd.simps [simp del]

definition trim :: "string \<Rightarrow> string" where
  "trim s = trimEnd (trimStart s)"

text \<open>A template literal prints an unset environment variable as \<open>undefined\<close>.\<close>

definition envText :: "string option \<Rightarrow> string" where
  "envText v = (case v of None \<Rightarrow> ''undefined'' | Some s \<Rightarrow> s)"

section \<open>IpDetector (src/services/ipDetector.ts and its four-source variant)\<close>

text \<open>
  The two versions of the class differ in their constants, in the list of services and in
  one more branch of the response parser; \<open>responseField\<close> is the \<open>if\<close>-chain on
  \<open>url.includes(...)\<close> that picks the JSON field, \<open>None\<close> for a plain-text source.
  \<open>TIMEOUT\<close> is the time after which the network answers an attempt with \<open>Timeout\<close>.
\<close>

record profile =
  TIMEOUT :: int
  MAX_RETRIES :: nat
  RETRY_DELAYS :: "int list"
  responseField :: "string \<Rightarrow> string option"

definition ipifyUrl :: string where
  "ipifyUrl = ''https://api.ipify.org?format=json''"

definition icanhazipUrl :: string where
  "icanhazipUrl = ''https://icanhazip.com''"

definition httpbinUrl :: string where
  "httpbinUrl = ''https://httpbin.org/ip''"

definition ifconfigUrl :: string where
  "ifconfigUrl = ''https://ifconfig.me/ip''"

definition ipDetector_ts :: profile where
  "ipDetector_ts =
     \<lparr>TIMEOUT = 5000, MAX_RETRIES = 3, RETRY_DELAYS = [1000, 2000, 4000],
      responseField = (\<lambda>url. if str_includes url ''ipify'' then Some ''ip'' else None)\<rparr>"

definition part_000 :: profile where
  "part_000 =
     \<lparr>TIMEOUT = 10000, MAX_RETRIES = 3, RETRY_DELAYS = [2000, 5000, 10000],
      responseField = (\<lambda>url. if str_includes url ''ipify'' then Some ''ip''
                             else if str_includes url ''httpbin'' then Some ''origin''
                             else None)\<rparr>"

text \<open>
  What one \<open>httpRequest\<close> resolves or rejects with, given the answer of the network.
  A status other than 200, a body that does not parse, a missing field and a value that is
  empty after \<open>trim\<close> all reject; the numbers that the source prints into the messages of
  a timeout and of a bad status are left out of the text.
\<close>

definition parseResponse :: "profile \<Rightarrow> env \<Rightarrow> string \<Rightarrow> http_result \<Rightarrow> error + string" where
  "parseResponse p en url r =
     (case r of
        Timeout \<Rightarrow> Inl (Error ''Request timeout'')
      | NetError m \<Rightarrow> Inl (Error m)
      | Response statusCode data \<Rightarrow>
          if statusCode \<noteq> 200 then Inl (Error ''HTTP status'')
          else (case responseField p url of
                  Some field \<Rightarrow>
                    (case jsonParse en data of
                       None \<Rightarrow> Inl (Error ''Invalid response format'')
                     | Some parsed \<Rightarrow>
                         (case parsed field of
                            None \<Rightarrow> Inl (Error ''Invalid response format: Error: No IP in response'')
                          | Some v \<Rightarrow>
                              if trim v = [] then Inl (Error ''Invalid response format: Error: No IP in response'')
                              else Inr (trim v)))
                | None \<Rightarrow>
                    if trim data = [] then Inl (Error ''Invalid response format: Error: Empty response'')
                    else Inr (trim data)))"

definition httpRequest ::
  "profile \<Rightarrow> env \<Rightarrow> string \<Rightarrow> nat \<Rightarrow> event list \<Rightarrow> (error + string) \<times> event list" where
  "httpRequest p en url k tr = (parseResponse p en url (ipHttp en url k), tr @ [HttpGet url])"

text \<open>
  \<open>RETRY_DELAYS[attempt]\<close>; out of range the read is \<open>undefined\<close>, which \<open>setTimeout\<close>
  treats as 1 ms.
\<close>

definition retryDelay :: "profile \<Rightarrow> nat \<Rightarrow> int" where
  "retryDelay p attempt =
     (if attempt < length (RETRY_DELAYS p) then RETRY_DELAYS p ! attempt else 1)"

text \<open>
  The loop of \<open>retryOperation\<close>, with its variables \<open>attempt\<close> and \<open>lastError\<close>;
  \<open>operation k\<close> is the \<open>k\<close>-th call of the thunk.
\<close>

function retryLoop ::
  "profile \<Rightarrow> (nat \<Rightarrow> event list \<Rightarrow> (error + string) \<times> event list) \<Rightarrow> nat \<Rightarrow> error option
     \<Rightarrow> event list \<Rightarrow> (error + string) \<times> event list" where
  "retryLoop p operation attempt lastError tr =
     (if attempt \<le> MAX_RETRIES p then
        (case operation attempt tr of
           (Inr ip, tr') \<Rightarrow> (Inr ip, tr')
         | (Inl e, tr') \<Rightarrow>
             retryLoop p operation (attempt + 1) (Some e)
               (if attempt < MAX_RETRIES p then tr' @ [Sleep (retryDelay p attempt)] else tr'))
      else (case lastError of
              Some e \<Rightarrow> (Inl e, tr)
            | None \<Rightarrow> (Inl (Error ''undefined''), tr)))"
  by pat_completeness auto
termination
  by (relation "measure (\<lambda>(p, operation, attempt, lastError, tr). MAX_RETRIES p + 1 - attempt)") auto

declare retryLoop.simps [simp del]

definition retryOperation ::
  "profile \<Rightarrow> (nat \<Rightarrow> event list \<Rightarrow> (error + string) \<times> event list) \<Rightarrow> event list
     \<Rightarrow> (error + string) \<times> event list" where
  "retryOperation p operation tr = retryLoop p operation 0 None tr"

definition fetchFrom :: "profile \<Rightarrow> env \<Rightarrow> string \<Rightarrow> event list \<Rightarrow> (error + string) \<times> event list" where
  "fetchFrom p en url tr = retryOperation p (httpRequest p en url) tr"

text \<open>\<open>getCurrentIp\<close> of src/services/ipDetector.ts: ipify, then icanhazip.\<close>

definition getCurrentIp :: "env \<Rightarrow> event list \<Rightarrow> (error + string) \<times> event list" where
  "getCurrentIp en tr =
     (case fetchFrom ipDetector_ts en ipifyUrl tr of
        (Inr ip, tr1) \<Rightarrow> (Inr ip, tr1)
      | (Inl e1, tr1) \<Rightarrow>
          (case fetchFrom ipDetector_ts en icanhazipUrl tr1 of
             (Inr ip, tr2) \<Rightarrow> (Inr ip, tr2)
           | (Inl e2, tr2) \<Rightarrow> (Inl (Error ''Failed to detect IP address''), tr2)))"

text \<open>
  \<open>getCurrentIp\<close> of the four-source variant: the \<open>for\<close> loop over \<open>services\<close>, with
  the one-second pause after every failed service but the last.
\<close>

fun tryServices :: "env \<Rightarrow> string list \<Rightarrow> event list \<Rightarrow> (error + string) \<times> event list" where
  "tryServices en [] tr = (Inl (Error ''Failed to detect IP address from all services''), tr)"
| "tryServices en (url # rest) tr =
     (case fetchFrom part_000 en url tr of
        (Inr ip, tr1) \<Rightarrow> (Inr ip, tr1)
      | (Inl e, tr1) \<Rightarrow>
          tryServices en rest (if rest \<noteq> [] then tr1 @ [Sleep 1000] else tr1))"

definition services :: "string list" where
  "services = [ipifyUrl, icanhazipUrl, httpbinUrl, ifconfigUrl]"

definition getCurrentIp_part_000 :: "env \<Rightarrow> event list \<Rightarrow> (error + string) \<times> event list" where
  "getCurrentIp_part_000 en tr = tryServices en services tr"

section \<open>The process state\<close>

text \<open>
  Where a timer-driven or forced cycle came from decides what happens when its promise
  settles: \<open>start\<close> and the timer callback chain \<open>scheduleNextCheck\<close>, \<open>forceCheck\<close>
  returns to its caller.
\<close>

datatype origin = FromStart | FromTimer | FromForce

text \<open>
  The two data files (\<open>None\<close>: missing or unparsable, so that reading throws; the flags
  say whether \<open>writeFileSync\<close> succeeds), the fields of the one \<open>IpMonitor\<close> instance
  (\<open>interval\<close> holds a timer handle, \<open>monitorStatus\<close> is the field \<open>status\<close>), the pending
  timers of the runtime with their delays in milliseconds, the cycles that are suspended
  at an \<open>await\<close>, and the trace of effects.
\<close>

record world =
  configFile :: "Config option"
  configWritable :: bool
  historyFile :: "UpdateHistory option"
  historyWritable :: bool
  interval :: "nat option"
  isChecking :: bool
  monitorStatus :: MonitorStatus
  timers :: "(nat \<times> int) list"
  nextHandle :: nat
  inflight :: "origin list"
  effects :: "event list"

section \<open>StorageService (src/services/storage.ts)\<close>

definition readConfig :: "world \<Rightarrow> error + Config" where
  "readConfig w =
     (case configFile w of
        None \<Rightarrow> Inl (Error ''Failed to read configuration'')
      | Some config \<Rightarrow> Inr config)"

definition writeConfig :: "string \<Rightarrow> Config \<Rightarrow> world \<Rightarrow> error + world" where
  "writeConfig now config w =
     (let config' = config\<lparr>updatedAt := now\<rparr> in
      if configWritable w
      then Inr (w\<lparr>configFile := Some config', effects := effects w @ [ConfigWritten config']\<rparr>)
      else Inl (Error ''Failed to write configuration''))"

definition readHistory :: "world \<Rightarrow> error + UpdateHistory" where
  "readHistory w =
     (case historyFile w of
        None \<Rightarrow> Inl (Error ''Failed to read update history'')
      | Some history \<Rightarrow> Inr history)"

definition writeHistory :: "UpdateHistory \<Rightarrow> world \<Rightarrow> error + world" where
  "writeHistory history w =
     (if historyWritable w
      then Inr (w\<lparr>historyFile := Some history, effects := effects w @ [HistoryWritten history]\<rparr>)
      else Inl (Error ''Failed to write update history''))"

definition addUpdateEntry :: "UpdateEntry \<Rightarrow> world \<Rightarrow> error + world" where
  "addUpdateEntry entry w =
     (case readHistory w of
        Inl e \<Rightarrow> Inl (Error ''Failed to add update entry'')
      | Inr history \<Rightarrow>
          (let unshifted = entry # updates history;
               kept = (if length unshifted > 10 then take 10 unshifted else unshifted)
           in case writeHistory (history\<lparr>updates := kept\<rparr>) w of
                Inl e \<Rightarrow> Inl (Error ''Failed to add update entry'')
              | Inr w' \<Rightarrow> Inr w'))"

definition updateLastKnownIp :: "string \<Rightarrow> string \<Rightarrow> world \<Rightarrow> error + world" where
  "updateLastKnownIp now ip w =
     (case readConfig w of
        Inl e \<Rightarrow> Inl (Error ''Failed to update last known IP'')
      | Inr config \<Rightarrow>
          (case writeConfig now (config\<lparr>lastKnownIp := Some ip\<rparr>) w of
             Inl e \<Rightarrow> Inl (Error ''Failed to update last known IP'')
           | Inr w' \<Rightarrow> Inr w'))"

section \<open>CloudflareService (src/services/cloudflare.ts)\<close>

definition BASE_URL :: string where
  "BASE_URL = ''https://api.cloudflare.com/client/v4''"

text \<open>\<open>makeRequest\<close> sends the request and settles with the answer of the network.\<close>

definition makeRequest ::
  "string \<Rightarrow> string \<Rightarrow> Payload option \<Rightarrow> error + CloudflareApiResponse \<Rightarrow> world
     \<Rightarrow> (error + CloudflareApiResponse) \<times> world" where
  "makeRequest url method body answer w =
     (answer, w\<lparr>effects := effects w @ [CfRequest method url body]\<rparr>)"

definition listUrl :: "env \<Rightarrow> string" where
  "listUrl en =
     BASE_URL @ ''/zones/'' @ envText (CLOUDFLARE_ZONE_ID en) @ ''/dns_records?name=''
       @ envText (DNS_RECORD_NAME en) @ ''&type=A''"

definition getDnsRecord ::
  "env \<Rightarrow> error + CloudflareApiResponse \<Rightarrow> world \<Rightarrow> (error + CloudflareRecord option) \<times> world" where
  "getDnsRecord en answer w =
     (case makeRequest (listUrl en) ''GET'' None answer w of
        (Inl e, w') \<Rightarrow> (Inl e, w')
      | (Inr response, w') \<Rightarrow>
          if \<not> success response then
            (case errors response of
               [] \<Rightarrow> (Inr None, w')
             | code # others \<Rightarrow>
                 if code = 10001 then (Inl (Error ''Invalid Cloudflare API credentials''), w')
                 else if code = 7003 then (Inl (Error ''Invalid Zone ID or API access denied''), w')
                 else (Inr None, w'))
          else (case result response of
                  None \<Rightarrow> (Inr None, w')
                | Some [] \<Rightarrow> (Inr None, w')
                | Some (first # others) \<Rightarrow> (Inr (Some first), w')))"

definition recordUrl :: "env \<Rightarrow> string \<Rightarrow> string" where
  "recordUrl en rid =
     BASE_URL @ ''/zones/'' @ envText (CLOUDFLARE_ZONE_ID en) @ ''/dns_records/'' @ rid"

definition payloadFor :: "string \<Rightarrow> CloudflareRecord \<Rightarrow> Payload" where
  "payloadFor newIp' existingRecord =
     \<lparr>p_type = rtype existingRecord,
      p_name = rname existingRecord,
      p_content = newIp',
      p_ttl = ttl existingRecord,
      p_proxied = (case proxied existingRecord of Some b \<Rightarrow> b | None \<Rightarrow> False)\<rparr>"

definition updateRecord ::
  "env \<Rightarrow> string \<Rightarrow> string \<Rightarrow> CloudflareRecord \<Rightarrow> world \<Rightarrow> (error + unit) \<times> world" where
  "updateRecord en rid newIp' existingRecord w =
     (case makeRequest (recordUrl en rid) ''PUT'' (Some (payloadFor newIp' existingRecord))
             (updPutResp en) w of
        (Inl e, w') \<Rightarrow> (Inl e, w')
      | (Inr response, w') \<Rightarrow>
          if \<not> success response then (Inl (Error ''Cloudflare API error''), w')
          else (Inr (), w'))"

text \<open>The whole body of \<open>updateDnsRecord\<close> is inside one \<open>try\<close> whose \<open>catch\<close> returns false.\<close>

definition updateDnsRecord :: "env \<Rightarrow> string \<Rightarrow> world \<Rightarrow> bool \<times> world" where
  "updateDnsRecord en newIp' w =
     (case getDnsRecord en (updReadResp en) w of
        (Inl e, w1) \<Rightarrow> (False, w1)
      | (Inr None, w1) \<Rightarrow> (False, w1)
      | (Inr (Some found), w1) \<Rightarrow>
          (case updateRecord en (recordId found) newIp' found w1 of
             (Inl e, w2) \<Rightarrow> (False, w2)
           | (Inr u, w2) \<Rightarrow> (True, w2)))"

section \<open>IpMonitor (src/services/logger.ts, lines 156 to 428)\<close>

definition isTestMode :: "env \<Rightarrow> bool \<Rightarrow> bool" where
  "isTestMode en dnsRecordAccessible =
     (opt_includes (CLOUDFLARE_API_TOKEN en) ''test_''
      \<or> opt_includes (CLOUDFLARE_ZONE_ID en) ''test_''
      \<or> \<not> dnsRecordAccessible)"

text \<open>\<open>dnsRecord?.content || null\<close>: an empty content is falsy.\<close>

definition dnsRecordIpOf :: "error + CloudflareRecord option \<Rightarrow> string option" where
  "dnsRecordIpOf r =
     (case r of
        Inr (Some dnsRecord) \<Rightarrow> (if content dnsRecord = [] then None else Some (content dnsRecord))
      | Inr None \<Rightarrow> None
      | Inl e \<Rightarrow> None)"

definition updateEntryFor :: "env \<Rightarrow> string option \<Rightarrow> Config \<Rightarrow> string \<Rightarrow> bool \<Rightarrow> UpdateEntry" where
  "updateEntryFor en dnsRecordIp config currentIp dnsUpdateSuccess =
     \<lparr>entryId = uuidUpdate en,
      timestamp = nowUpdate en,
      oldIp = (case dnsRecordIp of Some d \<Rightarrow> Some d | None \<Rightarrow> lastKnownIp config),
      newIp = currentIp,
      status = (if dnsUpdateSuccess then Success else Failed),
      dnsRecordUpdated = dnsUpdateSuccess\<rparr>"

definition failureEntry :: "env \<Rightarrow> UpdateEntry" where
  "failureEntry en =
     \<lparr>entryId = uuidFailure en,
      timestamp = nowFailure en,
      oldIp = None,
      newIp = ''check_failed'',
      status = Failed,
      dnsRecordUpdated = False\<rparr>"

text \<open>
  \<open>performIpCheck\<close> runs up to its first \<open>await\<close> in the caller's turn: the flag and the
  status are set and the console line is printed before anything is requested.
\<close>

definition beginCheck :: "world \<Rightarrow> world" where
  "beginCheck w =
     w\<lparr>isChecking := True, monitorStatus := Checking,
       effects := effects w @ [ConsoleLog ''Checking IP address...'']\<rparr>"

text \<open>The branch \<open>if (ipChanged)\<close> of the \<open>try\<close> block, lines 299 to 389.\<close>

definition changedBranch ::
  "env \<Rightarrow> Config \<Rightarrow> string option \<Rightarrow> bool \<Rightarrow> string \<Rightarrow> world \<Rightarrow> (error + bool \<times> string) \<times> world" where
  "changedBranch en config dnsRecordIp dnsRecordAccessible currentIp w =
     (case updateLastKnownIp (nowConfig en) currentIp w of
        Inl e \<Rightarrow> (Inl e, w)
      | Inr w1 \<Rightarrow>
          (case updateDnsRecord en currentIp w1 of
             (dnsUpdateSuccess, w2) \<Rightarrow>
               (case addUpdateEntry (updateEntryFor en dnsRecordIp config currentIp dnsUpdateSuccess) w2 of
                  Inl e \<Rightarrow> (Inl e, w2)
                | Inr w3 \<Rightarrow>
                    if isTestMode en dnsRecordAccessible
                    then (Inr (True, currentIp), w3\<lparr>monitorStatus := Active\<rparr>)
                    else if dnsUpdateSuccess
                    then (Inr (True, currentIp), w3\<lparr>monitorStatus := Active\<rparr>)
                    else (Inl (Error ''DNS update failed: ''), w3\<lparr>monitorStatus := ErrorStatus\<rparr>))))"

text \<open>The \<open>try\<close> block of \<open>performIpCheck\<close>, lines 243 to 401.\<close>

definition tryBlock :: "env \<Rightarrow> world \<Rightarrow> (error + bool \<times> string) \<times> world" where
  "tryBlock en w =
     (case getCurrentIp en (effects w) of
        (Inl e, tr) \<Rightarrow> (Inl e, w\<lparr>effects := tr\<rparr>)
      | (Inr currentIp, tr) \<Rightarrow>
          (let w1 = w\<lparr>effects := tr\<rparr> in
           case readConfig w1 of
             Inl e \<Rightarrow> (Inl e, w1)
           | Inr config \<Rightarrow>
               (case getDnsRecord en (dnsReadResp en) w1 of
                  (dnsRead, w2) \<Rightarrow>
                    (let dnsRecordIp = dnsRecordIpOf dnsRead;
                         dnsRecordAccessible = (case dnsRead of Inl e \<Rightarrow> False | Inr r \<Rightarrow> True);
                         ipChangedFromStored = (lastKnownIp config \<noteq> Some currentIp);
                         ipChangedFromDns = (dnsRecordAccessible \<and> dnsRecordIp \<noteq> Some currentIp);
                         ipChanged = (ipChangedFromStored \<or> ipChangedFromDns)
                     in if ipChanged
                        then changedBranch en config dnsRecordIp dnsRecordAccessible currentIp w2
                        else (Inr (ipChanged, currentIp), w2\<lparr>monitorStatus := Active\<rparr>)))))"

text \<open>The \<open>catch\<close> block, lines 403 to 423; a failure to record the entry is swallowed.\<close>

definition catchBlock :: "env \<Rightarrow> world \<Rightarrow> world" where
  "catchBlock en w =
     (let w1 = w\<lparr>monitorStatus := ErrorStatus\<rparr> in
      case addUpdateEntry (failureEntry en) w1 of
        Inl storageError \<Rightarrow> w1
      | Inr w2 \<Rightarrow> w2)"

text \<open>The rest of \<open>performIpCheck\<close> after \<open>beginCheck\<close>: \<open>try\<close>, \<open>catch\<close> and \<open>finally\<close>.\<close>

definition finishCheck :: "env \<Rightarrow> world \<Rightarrow> (error + bool \<times> string) \<times> world" where
  "finishCheck en w =
     (case tryBlock en w of
        (Inr r, w1) \<Rightarrow> (Inr r, w1\<lparr>isChecking := False\<rparr>)
      | (Inl e, w1) \<Rightarrow> (Inl e, (catchBlock en w1)\<lparr>isChecking := False\<rparr>))"

definition performIpCheck :: "env \<Rightarrow> world \<Rightarrow> (error + bool \<times> string) \<times> world" where
  "performIpCheck en w = finishCheck en (beginCheck w)"

record ForceCheckResult =
  fc_success :: bool
  fc_ipChanged :: bool
  fc_currentIp :: "string option"
  fc_message :: string

definition inProgress :: ForceCheckResult where
  "inProgress =
     \<lparr>fc_success = False, fc_ipChanged = False, fc_currentIp = None,
      fc_message = ''Check already in progress''\<rparr>"

text \<open>What \<open>forceCheck\<close> makes of the settled promise; \<open>${error}\<close> prints \<open>Error: \<close> and the message.\<close>

definition forceResult :: "error + bool \<times> string \<Rightarrow> ForceCheckResult" where
  "forceResult r =
     (case r of
        Inr (ipChanged, currentIp) \<Rightarrow>
          \<lparr>fc_success = True, fc_ipChanged = ipChanged, fc_currentIp = Some currentIp,
           fc_message = (if ipChanged then ''IP address updated'' else ''No change detected'')\<rparr>
      | Inl (Error m) \<Rightarrow>
          \<lparr>fc_success = False, fc_ipChanged = False, fc_currentIp = None,
           fc_message = ''Check failed: Error: '' @ m\<rparr>)"

definition forceCheck :: "env \<Rightarrow> world \<Rightarrow> ForceCheckResult \<times> world" where
  "forceCheck en w =
     (if isChecking w then (inProgress, w)
      else (case performIpCheck en w of (r, w') \<Rightarrow> (forceResult r, w')))"

text \<open>
  \<open>setTimeout\<close> of Node.js: a delay outside 1 .. 2^31 - 1 milliseconds becomes 1.
\<close>

definition timeoutDelay :: "int \<Rightarrow> int" where
  "timeoutDelay ms = (if 1 \<le> ms \<and> ms \<le> 2147483647 then ms else 1)"

definition scheduleNextCheck :: "world \<Rightarrow> error + world" where
  "scheduleNextCheck w =
     (case readConfig w of
        Inl e \<Rightarrow> Inl e
      | Inr config \<Rightarrow>
          (let intervalMs = checkIntervalMinutes config * 60 * 1000;
               handle = nextHandle w
           in Inr (w\<lparr>interval := Some handle,
                     timers := timers w @ [(handle, timeoutDelay intervalMs)],
                     nextHandle := handle + 1\<rparr>)))"

definition clearTimeout :: "nat \<Rightarrow> world \<Rightarrow> world" where
  "clearTimeout handle w = w\<lparr>timers := filter (\<lambda>t. fst t \<noteq> handle) (timers w)\<rparr>"

definition stop :: "world \<Rightarrow> world" where
  "stop w =
     (let w1 = (case interval w of
                  Some handle \<Rightarrow> (clearTimeout handle w)\<lparr>interval := None\<rparr>
                | None \<Rightarrow> w)
      in w1\<lparr>effects := effects w1 @ [ConsoleLog ''IP monitoring stopped'']\<rparr>)"

text \<open>
  The handlers that \<open>start\<close> and the timer callback attach to the promise of a cycle:
  \<open>.then\<close> calls \<open>scheduleNextCheck\<close>, and \<open>.catch\<close>, which also receives what the
  \<open>.then\<close> handler throws, calls it again; what the \<open>.catch\<close> handler throws is an
  unhandled rejection and arms nothing.
\<close>

definition afterCheck :: "error + bool \<times> string \<Rightarrow> world \<Rightarrow> world" where
  "afterCheck r w =
     (case r of
        Inr v \<Rightarrow>
          (case scheduleNextCheck w of
             Inr w' \<Rightarrow> w'
           | Inl e \<Rightarrow> (case scheduleNextCheck w of Inr w' \<Rightarrow> w' | Inl e' \<Rightarrow> w))
      | Inl e \<Rightarrow> (case scheduleNextCheck w of Inr w' \<Rightarrow> w' | Inl e' \<Rightarrow> w))"

section \<open>The event loop\<close>

text \<open>
  One turn of the event loop: a call of a public method, a timer that fires, or the
  settling of a suspended cycle, whose requests are answered as the given environment
  says. A turn that cannot happen (a timer that is not pending, a cycle that is not
  suspended) is \<open>None\<close>. The body of a cycle is run in the turn in which it settles.
\<close>

datatype action =
    Start
  | Stop
  | ForceCheck
  | TimerFires nat
  | Settles nat env

definition removeAt :: "nat \<Rightarrow> 'a list \<Rightarrow> 'a list" where
  "removeAt i xs = take i xs @ drop (Suc i) xs"

definition launch :: "origin \<Rightarrow> world \<Rightarrow> world" where
  "launch from w = (let w1 = beginCheck w in w1\<lparr>inflight := inflight w1 @ [from]\<rparr>)"

fun step :: "action \<Rightarrow> world \<Rightarrow> world option" where
  "step Start w = Some (launch FromStart w)"
| "step Stop w = Some (stop w)"
| "step ForceCheck w = (if isChecking w then Some w else Some (launch FromForce w))"
| "step (TimerFires handle) w =
     (if handle \<in> fst ` set (timers w)
      then Some (launch FromTimer (clearTimeout handle w))
      else None)"
| "step (Settles i en) w =
     (if i < length (inflight w)
      then (case finishCheck en (w\<lparr>inflight := removeAt i (inflight w)\<rparr>) of
              (r, w1) \<Rightarrow>
                Some (if inflight w ! i = FromForce then w1 else afterCheck r w1))
      else None)"

fun run :: "action list \<Rightarrow> world \<Rightarrow> world option" where
  "run [] w = Some w"
| "run (a # as) w = (case step a w of None \<Rightarrow> None | Some w' \<Rightarrow> run as w')"

section \<open>Vocabulary of the statements about detection\<close>

definition attemptResult :: "profile \<Rightarrow> env \<Rightarrow> string \<Rightarrow> nat \<Rightarrow> error + string" where
  "attemptResult p en url k = parseResponse p en url (ipHttp en url k)"

definition attemptsAgainst :: "string \<Rightarrow> event list \<Rightarrow> nat" where
  "attemptsAgainst url tr = length (filter (\<lambda>e. e = HttpGet url) tr)"

text \<open>
  What the statements call an accepted answer: status 200 and a value (the body of a
  plain-text source, the named field of a JSON source) that is not empty after \<open>trim\<close>;
  the trimmed value is the address the source yields. Nothing is asked of its syntax.
\<close>

definition sourceValue :: "profile \<Rightarrow> env \<Rightarrow> string \<Rightarrow> string \<Rightarrow> string option" where
  "sourceValue p en url data =
     (case responseField p url of
        None \<Rightarrow> Some data
      | Some field \<Rightarrow> (case jsonParse en data of None \<Rightarrow> None | Some parsed \<Rightarrow> parsed field))"

definition accepted :: "profile \<Rightarrow> env \<Rightarrow> string \<Rightarrow> http_result \<Rightarrow> string option" where
  "accepted p en url answer =
     (case answer of
        Response statusCode data \<Rightarrow>
          if statusCode = 200
          then (case sourceValue p en url data of
                  None \<Rightarrow> None
                | Some text \<Rightarrow> if trim text = [] then None else Some (trim text))
          else None
      | Timeout \<Rightarrow> None
      | NetError m \<Rightarrow> None)"

text \<open>
  A source fails when none of its \<open>MAX_RETRIES + 1\<close> attempts is accepted; otherwise it
  yields the value of its first accepted attempt.
\<close>

definition sourceFails :: "profile \<Rightarrow> env \<Rightarrow> string \<Rightarrow> bool" where
  "sourceFails p en url =
     list_all (\<lambda>k. accepted p en url (ipHttp en url k) = None) [0..<Suc (MAX_RETRIES p)]"

definition sourceAnswer :: "profile \<Rightarrow> env \<Rightarrow> string \<Rightarrow> string option" where
  "sourceAnswer p en url =
     (case find (\<lambda>a. a \<noteq> None)
             (map (\<lambda>k. accepted p en url (ipHttp en url k)) [0..<Suc (MAX_RETRIES p)]) of
        None \<Rightarrow> None
      | Some a \<Rightarrow> a)"

text \<open>
  Every IPv4 or IPv6 address in text form is a non-empty string of hexadecimal digits,
  dots and colons.
\<close>

definition addressChars :: "string \<Rightarrow> bool" where
  "addressChars s = (s \<noteq> [] \<and> list_all (\<lambda>c. c \<in> set ''0123456789abcdefABCDEF.:'') s)"

definition detectSpec :: "profile \<Rightarrow> env \<Rightarrow> string list \<Rightarrow> string option" where
  "detectSpec p en urls =
     (case List.map_filter (sourceAnswer p en) urls of [] \<Rightarrow> None | ip # others \<Rightarrow> Some ip)"

section \<open>Vocabulary of the statements about a cycle\<close>

text \<open>
  What \<open>getDnsRecord\<close> makes of the provider's answer, what \<open>updateDnsRecord\<close>
  returns and requests, and the values a cycle persists; each is tied to the functions of
  the model by a lemma below.
\<close>

definition readOutcome :: "error + CloudflareApiResponse \<Rightarrow> error + CloudflareRecord option" where
  "readOutcome answer =
     (case answer of
        Inl e \<Rightarrow> Inl e
      | Inr response \<Rightarrow>
          if success response then
            (case result response of
               Some (first # others) \<Rightarrow> Inr (Some first)
             | Some [] \<Rightarrow> Inr None
             | None \<Rightarrow> Inr None)
          else if errors response \<noteq> [] \<and> hd (errors response) = 10001
            then Inl (Error ''Invalid Cloudflare API credentials'')
          else if errors response \<noteq> [] \<and> hd (errors response) = 7003
            then Inl (Error ''Invalid Zone ID or API access denied'')
          else Inr None)"

definition putAccepted :: "env \<Rightarrow> bool" where
  "putAccepted en = (case updPutResp en of Inl e \<Rightarrow> False | Inr response \<Rightarrow> success response)"

definition writeSucceeds :: "env \<Rightarrow> bool" where
  "writeSucceeds en =
     (case readOutcome (updReadResp en) of
        Inr (Some base) \<Rightarrow> putAccepted en
      | Inr None \<Rightarrow> False
      | Inl e \<Rightarrow> False)"

definition writeRequests :: "env \<Rightarrow> string \<Rightarrow> event list" where
  "writeRequests en ip =
     CfRequest ''GET'' (listUrl en) None #
     (case readOutcome (updReadResp en) of
        Inr (Some base) \<Rightarrow> [CfRequest ''PUT'' (recordUrl en (recordId base)) (Some (payloadFor ip base))]
      | Inr None \<Rightarrow> []
      | Inl e \<Rightarrow> [])"

definition pushEntry :: "UpdateEntry \<Rightarrow> UpdateHistory \<Rightarrow> UpdateHistory" where
  "pushEntry entry history = history\<lparr>updates := take 10 (entry # updates history)\<rparr>"

definition persistedIp :: "env \<Rightarrow> string \<Rightarrow> Config \<Rightarrow> Config" where
  "persistedIp en ip config = config\<lparr>lastKnownIp := Some ip, updatedAt := nowConfig en\<rparr>"

definition dnsReadAccessible :: "env \<Rightarrow> bool" where
  "dnsReadAccessible en = (\<not> isl (readOutcome (dnsReadResp en)))"

definition dnsIp :: "env \<Rightarrow> string option" where
  "dnsIp en = dnsRecordIpOf (readOutcome (dnsReadResp en))"

definition changed :: "env \<Rightarrow> Config \<Rightarrow> string \<Rightarrow> bool" where
  "changed en config ip =
     (lastKnownIp config \<noteq> Some ip \<or> (dnsReadAccessible en \<and> dnsIp en \<noteq> Some ip))"

definition detects :: "env \<Rightarrow> world \<Rightarrow> string \<Rightarrow> event list \<Rightarrow> bool" where
  "detects en w ip tr = (getCurrentIp en (effects (beginCheck w)) = (Inr ip, tr))"

definition storageHealthy :: "world \<Rightarrow> Config \<Rightarrow> UpdateHistory \<Rightarrow> bool" where
  "storageHealthy w config history =
     (configFile w = Some config \<and> configWritable w \<and> historyFile w = Some history \<and> historyWritable w)"

text \<open>The effects that a cycle adds to the trace, and what kind each is.\<close>

definition isDetectionEvent :: "event \<Rightarrow> bool" where
  "isDetectionEvent e = (case e of HttpGet url \<Rightarrow> True | Sleep ms \<Rightarrow> True | other \<Rightarrow> False)"

definition isProviderWrite :: "event \<Rightarrow> bool" where
  "isProviderWrite e = (case e of CfRequest method url body \<Rightarrow> method = ''PUT'' | other \<Rightarrow> False)"

definition isHistoryWrite :: "event \<Rightarrow> bool" where
  "isHistoryWrite e = (case e of HistoryWritten history \<Rightarrow> True | other \<Rightarrow> False)"

definition cycleEffects :: "world \<Rightarrow> world \<Rightarrow> event list" where
  "cycleEffects w w' = drop (length (effects w)) (effects w')"

text \<open>The messages of the errors that can leave \<open>performIpCheck\<close>.\<close>

definition cycleErrors :: "string set" where
  "cycleErrors =
     {''Failed to detect IP address'', ''Failed to read configuration'',
      ''Failed to update last known IP'', ''Failed to add update entry'', ''DNS update failed: ''}"

section \<open>Vocabulary of the statements about scheduling\<close>

text \<open>
  A step keeps the schedule when it leaves the timers, the handles, the suspended cycles
  and the configured interval as they were.
\<close>

definition keepsSchedule :: "world \<Rightarrow> world \<Rightarrow> bool" where
  "keepsSchedule w w' =
     (timers w' = timers w \<and> nextHandle w' = nextHandle w \<and> interval w' = interval w
      \<and> inflight w' = inflight w
      \<and> map_option checkIntervalMinutes (configFile w') = map_option checkIntervalMinutes (configFile w))"

definition isConsoleLog :: "event \<Rightarrow> bool" where
  "isConsoleLog e = (case e of ConsoleLog line \<Rightarrow> True | other \<Rightarrow> False)"

text \<open>
  The history holds at most ten entries; one cycle leaves it as it is or pushes one or two
  entries on its front, trimming the oldest.
\<close>

definition historyBounded :: "world \<Rightarrow> bool" where
  "historyBounded w = (case historyFile w of None \<Rightarrow> True | Some h \<Rightarrow> length (updates h) \<le> 10)"

definition historyStep :: "world \<Rightarrow> world \<Rightarrow> bool" where
  "historyStep w w' =
     (historyFile w' = historyFile w
      \<or> (\<exists>h e1. historyFile w = Some h
            \<and> (historyFile w' = Some (pushEntry e1 h)
                \<or> (\<exists>e2. historyFile w' = Some (pushEntry e2 (pushEntry e1 h))))))"

section \<open>Concrete inputs\<close>

text \<open>
  The first source (ipify) times out at every attempt; every other source answers
  \<open>203.0.113.7\<close> at once.
\<close>

definition env_A_down :: env where
  "env_A_down =
     \<lparr>ipHttp = (\<lambda>url k. if url = ipifyUrl then Timeout else Response 200 ''203.0.113.7''),
      jsonParse = (\<lambda>s. None),
      CLOUDFLARE_API_TOKEN = Some ''token'',
      CLOUDFLARE_ZONE_ID = Some ''zone'',
      DNS_RECORD_NAME = Some ''home.example.com'',
      dnsReadResp = Inl (Error ''socket hang up''),
      updReadResp = Inl (Error ''socket hang up''),
      updPutResp = Inl (Error ''socket hang up''),
      uuidUpdate = ''id-1'', nowUpdate = ''t1'',
      uuidFailure = ''id-2'', nowFailure = ''t2'',
      nowConfig = ''t0''\<rparr>"

text \<open>
  ipify times out at every attempt, icanhazip answers with status 200 and the page of a
  rate limiter, and the two sources after it answer \<open>203.0.113.7\<close>.
\<close>

definition env_html :: env where
  "env_html =
     env_A_down
       \<lparr>ipHttp := (\<lambda>url k. if url = ipifyUrl then Timeout
                          else if url = icanhazipUrl
                            then Response 200 ''<html>Too Many Requests</html>''
                          else Response 200 ''203.0.113.7'')\<rparr>"

text \<open>
  A healthy installation whose last known address is \<open>198.51.100.1\<close>, the record the
  provider holds for it, and a cycle in which ipify reports \<open>198.51.100.2\<close> under real
  credentials; in \<open>env_write_fails\<close> the PUT ends in a transport error.
\<close>

definition config0 :: Config where
  "config0 =
     \<lparr>checkIntervalMinutes = 5, theme = Light, lastKnownIp = Some ''198.51.100.1'',
      createdAt = ''2025-01-01T00:00:00.000Z'', updatedAt = ''2025-01-01T00:00:00.000Z'',
      lastForceUpdateTime = None\<rparr>"

definition world0 :: world where
  "world0 =
     \<lparr>configFile = Some config0, configWritable = True,
      historyFile = Some \<lparr>updates = []\<rparr>, historyWritable = True,
      interval = None, isChecking = False, monitorStatus = Active,
      timers = [], nextHandle = 0, inflight = [], effects = []\<rparr>"

definition record0 :: CloudflareRecord where
  "record0 =
     \<lparr>recordId = ''rec-1'', rtype = ''A'', rname = ''home.example.com'',
      content = ''198.51.100.1'', ttl = 300, proxied = Some True\<rparr>"

definition listing0 :: CloudflareApiResponse where
  "listing0 = \<lparr>success = True, errors = [], result = Some [record0]\<rparr>"

definition env_ip_changes :: env where
  "env_ip_changes =
     \<lparr>ipHttp = (\<lambda>url k. Response 200 ''{ip: 198.51.100.2}''),
      jsonParse = (\<lambda>s. if s = ''{ip: 198.51.100.2}''
                        then Some (\<lambda>field. if field = ''ip'' then Some ''198.51.100.2'' else None)
                        else None),
      CLOUDFLARE_API_TOKEN = Some ''live-token'',
      CLOUDFLARE_ZONE_ID = Some ''zone-1'',
      DNS_RECORD_NAME = Some ''home.example.com'',
      dnsReadResp = Inr listing0,
      updReadResp = Inr listing0,
      updPutResp = Inr \<lparr>success = True, errors = [], result = None\<rparr>,
      uuidUpdate = ''id-1'', nowUpdate = ''2025-01-02T00:00:01.000Z'',
      uuidFailure = ''id-2'', nowFailure = ''2025-01-02T00:00:02.000Z'',
      nowConfig = ''2025-01-02T00:00:00.000Z''\<rparr>"

definition env_write_fails :: env where
  "env_write_fails = env_ip_changes\<lparr>updPutResp := Inl (Error ''socket hang up'')\<rparr>"

text \<open>The same installation when ipify reports the address that is already known.\<close>

definition env_all_equal :: env where
  "env_all_equal =
     env_ip_changes
       \<lparr>ipHttp := (\<lambda>url k. Response 200 ''{ip: 198.51.100.1}''),
        jsonParse := (\<lambda>s. if s = ''{ip: 198.51.100.1}''
                          then Some (\<lambda>field. if field = ''ip'' then Some ''198.51.100.1'' else None)
                          else None)\<rparr>"

text \<open>Every IP source times out at every attempt.\<close>

definition env_all_down :: env where
  "env_all_down = env_ip_changes\<lparr>ipHttp := (\<lambda>url k. Timeout)\<rparr>"

text \<open>
  The monitor was started with an interval of 5 minutes; while its first cycle is
  suspended the settings are changed to 17 minutes.
\<close>

definition world_retimed :: world where
  "world_retimed =
     (launch FromStart world0)\<lparr>configFile := Some (config0\<lparr>checkIntervalMinutes := 17\<rparr>)\<rparr>"

text \<open>A forced cycle is suspended while the timer of the schedule is still pending.\<close>

definition world_forced :: world where
  "world_forced =
     (launch FromForce world0)\<lparr>interval := Some 0, timers := [(0, 300000)], nextHandle := 1\<rparr>"

section \<open>Detection: retries and fallback\<close>

lemma trim_concrete:
  "trim ''203.0.113.7'' = ''203.0.113.7''"
  "trim ''198.51.100.1'' = ''198.51.100.1''"
  "trim ''198.51.100.2'' = ''198.51.100.2''"
  "trim ''<html>Too Many Requests</html>'' = ''<html>Too Many Requests</html>''"
  by (simp_all add: trim_def trimStart.simps trimEnd.simps endsWith_def whiteSpace_def)

lemma parseResponse_accepted:
  "parseResponse p en url answer = Inr ip \<longleftrightarrow> accepted p en url answer = Some ip"
  by (auto simp: parseResponse_def accepted_def sourceValue_def
        split: http_result.splits option.splits if_splits)

lemma parseResponse_rejected:
  "isl (parseResponse p en url answer) \<longleftrightarrow> accepted p en url answer = None"
  by (auto simp: parseResponse_def accepted_def sourceValue_def
        split: http_result.splits option.splits if_splits)

lemma attemptResult_accepted:
  "attemptResult p en url k = Inr ip \<longleftrightarrow> accepted p en url (ipHttp en url k) = Some ip"
  "isl (attemptResult p en url k) \<longleftrightarrow> accepted p en url (ipHttp en url k) = None"
  by (simp_all add: attemptResult_def parseResponse_accepted parseResponse_rejected)

lemma sourceFails_iff: "sourceFails p en url \<longleftrightarrow> (\<forall>k\<le>MAX_RETRIES p. isl (attemptResult p en url k))"
  by (auto simp: sourceFails_def list_all_iff less_Suc_eq_le attemptResult_accepted)

lemma httpRequest_eq: "httpRequest p en url k tr = (attemptResult p en url k, tr @ [HttpGet url])"
  by (simp add: httpRequest_def attemptResult_def)

lemma attemptsAgainst_simps [simp]:
  "attemptsAgainst url [] = 0"
  "attemptsAgainst url (tr @ tr') = attemptsAgainst url tr + attemptsAgainst url tr'"
  "attemptsAgainst url (HttpGet u # tr) = (if u = url then 1 else 0) + attemptsAgainst url tr"
  "attemptsAgainst url (Sleep d # tr) = attemptsAgainst url tr"
  by (simp_all add: attemptsAgainst_def)

lemma max_retries [simp]: "MAX_RETRIES ipDetector_ts = 3" "MAX_RETRIES part_000 = 3"
  by (simp_all add: ipDetector_ts_def part_000_def)

lemma retryLoop_unfold:
  "retryLoop p (httpRequest p en url) attempt lastError tr =
     (if attempt \<le> MAX_RETRIES p then
        (case attemptResult p en url attempt of
           Inr ip \<Rightarrow> (Inr ip, tr @ [HttpGet url])
         | Inl e \<Rightarrow>
             retryLoop p (httpRequest p en url) (Suc attempt) (Some e)
               (tr @ HttpGet url # (if attempt < MAX_RETRIES p then [Sleep (retryDelay p attempt)] else [])))
      else (case lastError of Some e \<Rightarrow> (Inl e, tr) | None \<Rightarrow> (Inl (Error ''undefined''), tr)))"
  by (subst retryLoop.simps) (simp add: httpRequest_eq split: sum.splits)

lemma retryLoop_exhausted:
  assumes "\<forall>k. attempt \<le> k \<and> k \<le> MAX_RETRIES p \<longrightarrow> isl (attemptResult p en url k)"
  shows "\<exists>e ev. retryLoop p (httpRequest p en url) attempt lastError tr = (Inl e, tr @ ev)
           \<and> attemptsAgainst url ev = MAX_RETRIES p + 1 - attempt
           \<and> (\<forall>u. u \<noteq> url \<longrightarrow> attemptsAgainst u ev = 0)"
  using assms
proof (induction n \<equiv> "MAX_RETRIES p + 1 - attempt" arbitrary: attempt lastError tr)
  case 0
  then have "\<not> attempt \<le> MAX_RETRIES p" by simp
  then show ?case
    by (cases lastError) (simp_all add: retryLoop_unfold [of p en url attempt])
next
  case (Suc n)
  then have le: "attempt \<le> MAX_RETRIES p" by simp
  with Suc.prems obtain e where e: "attemptResult p en url attempt = Inl e"
    by (metis isl_def order_refl)
  let ?pre = "HttpGet url # (if attempt < MAX_RETRIES p then [Sleep (retryDelay p attempt)] else [])"
  have "n = MAX_RETRIES p + 1 - Suc attempt" using Suc.hyps(2) by simp
  moreover have "\<forall>k. Suc attempt \<le> k \<and> k \<le> MAX_RETRIES p \<longrightarrow> isl (attemptResult p en url k)"
    using Suc.prems by simp
  ultimately obtain e' ev where
    r: "retryLoop p (httpRequest p en url) (Suc attempt) (Some e) (tr @ ?pre) = (Inl e', (tr @ ?pre) @ ev)"
    and c: "attemptsAgainst url ev = MAX_RETRIES p + 1 - Suc attempt"
    and o: "\<forall>u. u \<noteq> url \<longrightarrow> attemptsAgainst u ev = 0"
    using Suc.hyps(1) [of "Suc attempt" "Some e" "tr @ ?pre"] by blast
  have "retryLoop p (httpRequest p en url) attempt lastError tr = (Inl e', tr @ (?pre @ ev))"
    using le r by (subst retryLoop_unfold) (simp add: e)
  moreover have "attemptsAgainst url (?pre @ ev) = MAX_RETRIES p + 1 - attempt"
    using le c by (simp add: attemptsAgainst_def)
  moreover have "\<forall>u. u \<noteq> url \<longrightarrow> attemptsAgainst u (?pre @ ev) = 0"
    using o by (simp add: attemptsAgainst_def)
  ultimately show ?case by blast
qed

lemma retryLoop_result:
  assumes "retryLoop p (httpRequest p en url) attempt lastError tr = (Inr ip, tr')"
  shows "\<exists>k ev. attempt \<le> k \<and> k \<le> MAX_RETRIES p \<and> attemptResult p en url k = Inr ip
           \<and> (\<forall>j. attempt \<le> j \<and> j < k \<longrightarrow> isl (attemptResult p en url j))
           \<and> tr' = tr @ ev \<and> attemptsAgainst url ev = k + 1 - attempt
           \<and> (\<forall>u. u \<noteq> url \<longrightarrow> attemptsAgainst u ev = 0)"
  using assms
proof (induction n \<equiv> "MAX_RETRIES p + 1 - attempt" arbitrary: attempt lastError tr)
  case 0
  then have "\<not> attempt \<le> MAX_RETRIES p" by simp
  with "0.prems" show ?case
    by (cases lastError) (simp_all add: retryLoop_unfold [of p en url attempt])
next
  case (Suc n)
  then have le: "attempt \<le> MAX_RETRIES p" by simp
  show ?case
  proof (cases "attemptResult p en url attempt")
    case (Inr ip')
    with Suc.prems le have "ip' = ip" "tr' = tr @ [HttpGet url]"
      by (simp_all add: retryLoop_unfold [of p en url attempt])
    with Inr le show ?thesis
      by (intro exI [of _ attempt] exI [of _ "[HttpGet url]"]) auto
  next
    case (Inl e)
    let ?pre = "HttpGet url # (if attempt < MAX_RETRIES p then [Sleep (retryDelay p attempt)] else [])"
    have n: "n = MAX_RETRIES p + 1 - Suc attempt" using Suc.hyps(2) by simp
    have "retryLoop p (httpRequest p en url) (Suc attempt) (Some e) (tr @ ?pre) = (Inr ip, tr')"
      using Suc.prems le Inl by (simp add: retryLoop_unfold [of p en url attempt])
    from Suc.hyps(1) [OF n this] obtain k ev where
      k: "Suc attempt \<le> k" "k \<le> MAX_RETRIES p" "attemptResult p en url k = Inr ip"
      and f: "\<forall>j. Suc attempt \<le> j \<and> j < k \<longrightarrow> isl (attemptResult p en url j)"
      and t: "tr' = (tr @ ?pre) @ ev" "attemptsAgainst url ev = k + 1 - Suc attempt"
      and o: "\<forall>u. u \<noteq> url \<longrightarrow> attemptsAgainst u ev = 0"
      by blast
    have "\<forall>j. attempt \<le> j \<and> j < k \<longrightarrow> isl (attemptResult p en url j)"
    proof (intro allI impI)
      fix j assume "attempt \<le> j \<and> j < k"
      then show "isl (attemptResult p en url j)"
        using f Inl by (cases "j = attempt") auto
    qed
    moreover have "tr' = tr @ (?pre @ ev)" using t by simp
    moreover have "attemptsAgainst url (?pre @ ev) = k + 1 - attempt"
      using k t by (simp add: attemptsAgainst_def)
    moreover have "\<forall>u. u \<noteq> url \<longrightarrow> attemptsAgainst u (?pre @ ev) = 0"
      using o by (simp add: attemptsAgainst_def)
    ultimately show ?thesis using k by (intro exI [of _ k] exI [of _ "?pre @ ev"]) simp
  qed
qed

lemma retryLoop_cases:
  "(\<exists>e tr'. retryLoop p (httpRequest p en url) attempt lastError tr = (Inl e, tr'))
   \<or> (\<exists>ip tr'. retryLoop p (httpRequest p en url) attempt lastError tr = (Inr ip, tr'))"
  by (cases "retryLoop p (httpRequest p en url) attempt lastError tr"; cases "fst (retryLoop p (httpRequest p en url) attempt lastError tr)") auto


lemma retryLoop_Inl:
  assumes "retryLoop p (httpRequest p en url) attempt lastError tr = (Inl e, tr')"
  shows "\<forall>k. attempt \<le> k \<and> k \<le> MAX_RETRIES p \<longrightarrow> isl (attemptResult p en url k)"
  using assms
proof (induction n \<equiv> "MAX_RETRIES p + 1 - attempt" arbitrary: attempt lastError tr)
  case 0
  then have "\<not> attempt \<le> MAX_RETRIES p" by simp
  then show ?case by auto
next
  case (Suc n)
  then have le: "attempt \<le> MAX_RETRIES p" by simp
  show ?case
  proof (cases "attemptResult p en url attempt")
    case (Inr ip)
    with Suc.prems le show ?thesis
      by (simp add: retryLoop_unfold [of p en url attempt])
  next
    case (Inl e0)
    let ?pre = "HttpGet url # (if attempt < MAX_RETRIES p then [Sleep (retryDelay p attempt)] else [])"
    have n: "n = MAX_RETRIES p + 1 - Suc attempt" using Suc.hyps(2) by simp
    have "retryLoop p (httpRequest p en url) (Suc attempt) (Some e0) (tr @ ?pre) = (Inl e, tr')"
      using Suc.prems le Inl by (simp add: retryLoop_unfold [of p en url attempt])
    from Suc.hyps(1) [OF n this]
    have f: "\<forall>k. Suc attempt \<le> k \<and> k \<le> MAX_RETRIES p \<longrightarrow> isl (attemptResult p en url k)" .
    show ?thesis
    proof (intro allI impI)
      fix k assume "attempt \<le> k \<and> k \<le> MAX_RETRIES p"
      then show "isl (attemptResult p en url k)"
        using f Inl by (cases "k = attempt") auto
    qed
  qed
qed

lemma fetchFrom_exhausted:
  assumes "sourceFails p en url"
  shows "\<exists>e ev. fetchFrom p en url tr = (Inl e, tr @ ev)
           \<and> attemptsAgainst url ev = MAX_RETRIES p + 1
           \<and> (\<forall>u. u \<noteq> url \<longrightarrow> attemptsAgainst u ev = 0)"
  using retryLoop_exhausted [of 0 p en url None tr] assms
  by (simp add: fetchFrom_def retryOperation_def sourceFails_iff)

lemma fetchFrom_Inr:
  assumes "fetchFrom p en url tr = (Inr ip, tr')"
  shows "\<exists>k ev. k \<le> MAX_RETRIES p \<and> attemptResult p en url k = Inr ip
           \<and> (\<forall>j<k. isl (attemptResult p en url j))
           \<and> tr' = tr @ ev \<and> attemptsAgainst url ev = k + 1
           \<and> (\<forall>u. u \<noteq> url \<longrightarrow> attemptsAgainst u ev = 0)"
  using retryLoop_result [of p en url 0 None tr ip tr'] assms
  by (simp add: fetchFrom_def retryOperation_def)

lemma fetchFrom_Inl:
  assumes "fetchFrom p en url tr = (Inl e, tr')"
  shows "sourceFails p en url"
  using retryLoop_Inl [of p en url 0 None tr e tr'] assms
  by (simp add: fetchFrom_def retryOperation_def sourceFails_iff)

lemma sourceAnswer_None: "sourceAnswer p en url = None \<longleftrightarrow> sourceFails p en url"
proof -
  let ?as = "map (\<lambda>k. accepted p en url (ipHttp en url k)) [0..<Suc (MAX_RETRIES p)]"
  have n: "find (\<lambda>a. a \<noteq> None) ?as = None \<longleftrightarrow> sourceFails p en url"
    unfolding find_None_iff sourceFails_def list_all_iff by (simp del: upt_Suc)
  show ?thesis
  proof (cases "find (\<lambda>a. a \<noteq> None) ?as")
    case None
    with n show ?thesis by (simp add: sourceAnswer_def del: upt_Suc)
  next
    case (Some a)
    then have "a \<noteq> None" by (auto simp: find_Some_iff simp del: upt_Suc)
    with Some n show ?thesis by (simp add: sourceAnswer_def del: upt_Suc)
  qed
qed

lemma sourceAnswer_first:
  assumes "k \<le> MAX_RETRIES p" "attemptResult p en url k = Inr ip"
    and "\<forall>j<k. isl (attemptResult p en url j)"
  shows "sourceAnswer p en url = Some ip"
proof -
  let ?as = "map (\<lambda>k. accepted p en url (ipHttp en url k)) [0..<Suc (MAX_RETRIES p)]"
  have "find (\<lambda>a. a \<noteq> None) ?as = Some (Some ip)"
    unfolding find_Some_iff
  proof (intro exI [of _ k] conjI allI impI)
    show "k < length ?as" using assms(1) by simp
    show "?as ! k \<noteq> None"
      using assms(1,2) by (simp add: nth_append attemptResult_accepted del: upt_Suc)
    show "Some ip = ?as ! k"
      using assms(1,2) by (simp add: nth_append attemptResult_accepted del: upt_Suc)
    fix j assume "j < k"
    then show "\<not> ?as ! j \<noteq> None"
      using assms(1,3) by (simp add: nth_append attemptResult_accepted del: upt_Suc)
  qed
  then show ?thesis by (simp add: sourceAnswer_def del: upt_Suc)
qed

lemma fetchFrom_answer:
  "(case sourceAnswer p en url of
      None \<Rightarrow> isl (fst (fetchFrom p en url tr))
    | Some ip \<Rightarrow> fst (fetchFrom p en url tr) = Inr ip)"
proof (cases "fetchFrom p en url tr")
  case (Pair r tr')
  show ?thesis
  proof (cases r)
    case (Inl e)
    with Pair have "sourceFails p en url" by (auto dest: fetchFrom_Inl)
    then have "sourceAnswer p en url = None" by (simp add: sourceAnswer_None)
    with Pair Inl show ?thesis by simp
  next
    case (Inr ip)
    with Pair obtain k where "k \<le> MAX_RETRIES p" "attemptResult p en url k = Inr ip"
      "\<forall>j<k. isl (attemptResult p en url j)"
      using fetchFrom_Inr [of p en url tr ip tr'] by blast
    then have "sourceAnswer p en url = Some ip" by (rule sourceAnswer_first)
    with Pair Inr show ?thesis by simp
  qed
qed

lemma tryServices_answer:
  "fst (tryServices en urls tr) =
     (case detectSpec part_000 en urls of
        None \<Rightarrow> Inl (Error ''Failed to detect IP address from all services'')
      | Some ip \<Rightarrow> Inr ip)"
proof (induction urls arbitrary: tr)
  case Nil
  show ?case by (simp add: detectSpec_def List.map_filter_simps)
next
  case (Cons url rest)
  show ?case
  proof (cases "fetchFrom part_000 en url tr")
    case (Pair r tr1)
    show ?thesis
    proof (cases r)
      case (Inl e)
      with Pair have "sourceAnswer part_000 en url = None"
        using fetchFrom_Inl [of part_000 en url tr e tr1] by (simp add: sourceAnswer_None)
      then have "detectSpec part_000 en (url # rest) = detectSpec part_000 en rest"
        by (simp add: detectSpec_def List.map_filter_simps)
      with Pair Inl Cons.IH show ?thesis by simp
    next
      case (Inr ip)
      with Pair have "sourceAnswer part_000 en url = Some ip"
        using fetchFrom_answer [of part_000 en url tr] by (cases "sourceAnswer part_000 en url") auto
      then have "detectSpec part_000 en (url # rest) = Some ip"
        by (simp add: detectSpec_def List.map_filter_simps)
      with Pair Inr show ?thesis by simp
    qed
  qed
qed

lemma getCurrentIp_answer:
  "fst (getCurrentIp en tr) =
     (case detectSpec ipDetector_ts en [ipifyUrl, icanhazipUrl] of
        None \<Rightarrow> Inl (Error ''Failed to detect IP address'')
      | Some ip \<Rightarrow> Inr ip)"
proof (cases "fetchFrom ipDetector_ts en ipifyUrl tr")
  case (Pair r tr1)
  note first = Pair
  show ?thesis
  proof (cases r)
    case (Inr ip)
    with first have "sourceAnswer ipDetector_ts en ipifyUrl = Some ip"
      using fetchFrom_answer [of ipDetector_ts en ipifyUrl tr]
      by (cases "sourceAnswer ipDetector_ts en ipifyUrl") auto
    with first Inr show ?thesis
      by (simp add: getCurrentIp_def detectSpec_def List.map_filter_simps)
  next
    case (Inl e)
    with first have a: "sourceAnswer ipDetector_ts en ipifyUrl = None"
      using fetchFrom_Inl [of ipDetector_ts en ipifyUrl tr e tr1] by (simp add: sourceAnswer_None)
    show ?thesis
    proof (cases "fetchFrom ipDetector_ts en icanhazipUrl tr1")
      case (Pair r2 tr2)
      then show ?thesis
        using first Inl a fetchFrom_answer [of ipDetector_ts en icanhazipUrl tr1]
        by (cases r2; cases "sourceAnswer ipDetector_ts en icanhazipUrl")
           (auto simp: getCurrentIp_def detectSpec_def List.map_filter_simps)
    qed
  qed
qed

lemma fetchFrom_Some:
  assumes "sourceAnswer p en url = Some ip"
  shows "\<exists>ev. fetchFrom p en url tr = (Inr ip, tr @ ev) \<and> (\<forall>u. u \<noteq> url \<longrightarrow> attemptsAgainst u ev = 0)"
proof (cases "fetchFrom p en url tr")
  case (Pair r tr')
  show ?thesis
  proof (cases r)
    case (Inl e)
    with Pair have "sourceAnswer p en url = None"
      using fetchFrom_Inl [of p en url tr e tr'] by (simp add: sourceAnswer_None)
    with assms show ?thesis by simp
  next
    case (Inr ip')
    with Pair assms have "ip' = ip"
      using fetchFrom_answer [of p en url tr] by simp
    with Pair Inr show ?thesis
      using fetchFrom_Inr [of p en url tr ip tr'] by auto
  qed
qed

lemma urls_distinct:
  "ipifyUrl \<noteq> icanhazipUrl" "ipifyUrl \<noteq> httpbinUrl" "ipifyUrl \<noteq> ifconfigUrl"
  "icanhazipUrl \<noteq> httpbinUrl" "icanhazipUrl \<noteq> ifconfigUrl" "httpbinUrl \<noteq> ifconfigUrl"
  by (simp_all add: ipifyUrl_def icanhazipUrl_def httpbinUrl_def ifconfigUrl_def)

lemma getCurrentIp_fallback_count:
  assumes "sourceFails ipDetector_ts en ipifyUrl"
    and "sourceAnswer ipDetector_ts en icanhazipUrl = Some ip"
  shows "fst (getCurrentIp en []) = Inr ip
    \<and> attemptsAgainst ipifyUrl (snd (getCurrentIp en [])) = MAX_RETRIES ipDetector_ts + 1"
proof -
  obtain e ev1 where 1: "fetchFrom ipDetector_ts en ipifyUrl [] = (Inl e, [] @ ev1)"
    and c1: "attemptsAgainst ipifyUrl ev1 = MAX_RETRIES ipDetector_ts + 1"
    using fetchFrom_exhausted [OF assms(1), of "[]"] by blast
  obtain ev2 where 2: "fetchFrom ipDetector_ts en icanhazipUrl ev1 = (Inr ip, ev1 @ ev2)"
    and c2: "\<forall>u. u \<noteq> icanhazipUrl \<longrightarrow> attemptsAgainst u ev2 = 0"
    using fetchFrom_Some [OF assms(2), of ev1] by blast
  have "getCurrentIp en [] = (Inr ip, ev1 @ ev2)"
    using 1 2 by (simp add: getCurrentIp_def)
  then show ?thesis using c1 c2 urls_distinct by simp
qed

lemma getCurrentIp_part_000_fallback_count:
  assumes "sourceFails part_000 en ipifyUrl"
    and "sourceAnswer part_000 en icanhazipUrl = Some ip"
  shows "fst (getCurrentIp_part_000 en []) = Inr ip
    \<and> attemptsAgainst ipifyUrl (snd (getCurrentIp_part_000 en [])) = MAX_RETRIES part_000 + 1
    \<and> attemptsAgainst httpbinUrl (snd (getCurrentIp_part_000 en [])) = 0
    \<and> attemptsAgainst ifconfigUrl (snd (getCurrentIp_part_000 en [])) = 0"
proof -
  obtain e ev1 where 1: "fetchFrom part_000 en ipifyUrl [] = (Inl e, [] @ ev1)"
    and c1: "attemptsAgainst ipifyUrl ev1 = MAX_RETRIES part_000 + 1"
    and o1: "\<forall>u. u \<noteq> ipifyUrl \<longrightarrow> attemptsAgainst u ev1 = 0"
    using fetchFrom_exhausted [OF assms(1), of "[]"] by blast
  obtain ev2 where 2: "fetchFrom part_000 en icanhazipUrl (ev1 @ [Sleep 1000]) = (Inr ip, (ev1 @ [Sleep 1000]) @ ev2)"
    and c2: "\<forall>u. u \<noteq> icanhazipUrl \<longrightarrow> attemptsAgainst u ev2 = 0"
    using fetchFrom_Some [OF assms(2), of "ev1 @ [Sleep 1000]"] by blast
  have "getCurrentIp_part_000 en [] = (Inr ip, (ev1 @ [Sleep 1000]) @ ev2)"
    using 1 2 by (simp add: getCurrentIp_part_000_def services_def)
  then show ?thesis using c1 o1 c2 urls_distinct by simp
qed

lemma getCurrentIp_short_circuit:
  assumes "sourceAnswer ipDetector_ts en ipifyUrl = Some ip"
  shows "fst (getCurrentIp en []) = Inr ip
    \<and> attemptsAgainst icanhazipUrl (snd (getCurrentIp en [])) = 0"
proof -
  obtain ev where 1: "fetchFrom ipDetector_ts en ipifyUrl [] = (Inr ip, [] @ ev)"
    and o: "\<forall>u. u \<noteq> ipifyUrl \<longrightarrow> attemptsAgainst u ev = 0"
    using fetchFrom_Some [OF assms, of "[]"] by blast
  have "getCurrentIp en [] = (Inr ip, ev)" using 1 by (simp add: getCurrentIp_def)
  then show ?thesis using o urls_distinct by simp
qed

lemma getCurrentIp_part_000_short_circuit:
  assumes "sourceAnswer part_000 en ipifyUrl = Some ip"
  shows "fst (getCurrentIp_part_000 en []) = Inr ip
    \<and> attemptsAgainst icanhazipUrl (snd (getCurrentIp_part_000 en [])) = 0
    \<and> attemptsAgainst httpbinUrl (snd (getCurrentIp_part_000 en [])) = 0
    \<and> attemptsAgainst ifconfigUrl (snd (getCurrentIp_part_000 en [])) = 0"
proof -
  obtain ev where 1: "fetchFrom part_000 en ipifyUrl [] = (Inr ip, [] @ ev)"
    and o: "\<forall>u. u \<noteq> ipifyUrl \<longrightarrow> attemptsAgainst u ev = 0"
    using fetchFrom_Some [OF assms, of "[]"] by blast
  have "getCurrentIp_part_000 en [] = (Inr ip, ev)"
    using 1 by (simp add: getCurrentIp_part_000_def services_def)
  then show ?thesis using o urls_distinct by simp
qed

lemma env_A_down_facts:
  "sourceFails ipDetector_ts env_A_down ipifyUrl"
  "sourceAnswer ipDetector_ts env_A_down icanhazipUrl = Some ''203.0.113.7''"
  "sourceFails part_000 env_A_down ipifyUrl"
  "sourceAnswer part_000 env_A_down icanhazipUrl = Some ''203.0.113.7''"
  by (simp_all add: sourceFails_def sourceAnswer_def accepted_def sourceValue_def env_A_down_def
        ipDetector_ts_def part_000_def ipifyUrl_def icanhazipUrl_def trim_concrete
        list_all_iff upt_rec [of 0])

lemma env_html_facts:
  "sourceFails ipDetector_ts env_html ipifyUrl"
  "sourceAnswer ipDetector_ts env_html icanhazipUrl = Some ''<html>Too Many Requests</html>''"
  "sourceFails part_000 env_html ipifyUrl"
  "sourceAnswer part_000 env_html icanhazipUrl = Some ''<html>Too Many Requests</html>''"
  "accepted part_000 env_html ifconfigUrl (ipHttp env_html ifconfigUrl 0) = Some ''203.0.113.7''"
  by (simp_all add: sourceFails_def sourceAnswer_def accepted_def sourceValue_def env_html_def
        env_A_down_def ipDetector_ts_def part_000_def ipifyUrl_def icanhazipUrl_def ifconfigUrl_def
        trim_concrete list_all_iff upt_rec [of 0])

text \<open>
  C5 (as amended). An attempt against a source is accepted exactly when the answer has
  status 200 and the value it carries (the body, or the field \<open>ip\<close> of a JSON body) is
  not empty once trimmed; the attempt then yields the trimmed value, whatever its syntax.
  Both versions of \<open>getCurrentIp\<close> return the value of the first configured source one of
  whose \<open>MAX_RETRIES + 1\<close> attempts is accepted, and fail only when every attempt of every
  source has failed. A source that answers is the last one requested: when ipify answers,
  no other source is requested. When ipify fails at every attempt and icanhazip answers
  \<open>ip\<close>, the result is \<open>ip\<close>, ipify has been requested \<open>MAX_RETRIES + 1\<close> times (the
  first attempt and the retries) and, in the four-source version, the sources after
  icanhazip have not been requested at all.
\<close>

theorem getCurrentIp_first_source_wins:
  "(fst (httpRequest p en url k tr0) = Inr ip \<longleftrightarrow> accepted p en url (ipHttp en url k) = Some ip)
   \<and> (accepted p en url answer = Some ip \<longleftrightarrow>
        (\<exists>data text. answer = Response 200 data \<and> sourceValue p en url data = Some text
            \<and> trim text = ip \<and> ip \<noteq> []))
   \<and> fst (getCurrentIp en tr) =
     (case detectSpec ipDetector_ts en [ipifyUrl, icanhazipUrl] of
        None \<Rightarrow> Inl (Error ''Failed to detect IP address'')
      | Some ip \<Rightarrow> Inr ip)
   \<and> fst (getCurrentIp_part_000 en tr) =
     (case detectSpec part_000 en services of
        None \<Rightarrow> Inl (Error ''Failed to detect IP address from all services'')
      | Some ip \<Rightarrow> Inr ip)
   \<and> (sourceAnswer ipDetector_ts en ipifyUrl = Some ip \<longrightarrow>
        fst (getCurrentIp en []) = Inr ip
        \<and> attemptsAgainst icanhazipUrl (snd (getCurrentIp en [])) = 0)
   \<and> (sourceAnswer part_000 en ipifyUrl = Some ip \<longrightarrow>
        fst (getCurrentIp_part_000 en []) = Inr ip
        \<and> attemptsAgainst icanhazipUrl (snd (getCurrentIp_part_000 en [])) = 0
        \<and> attemptsAgainst httpbinUrl (snd (getCurrentIp_part_000 en [])) = 0
        \<and> attemptsAgainst ifconfigUrl (snd (getCurrentIp_part_000 en [])) = 0)
   \<and> (sourceFails ipDetector_ts en ipifyUrl \<and> sourceAnswer ipDetector_ts en icanhazipUrl = Some ip \<longrightarrow>
        fst (getCurrentIp en []) = Inr ip
        \<and> attemptsAgainst ipifyUrl (snd (getCurrentIp en [])) = MAX_RETRIES ipDetector_ts + 1)
   \<and> (sourceFails part_000 en ipifyUrl \<and> sourceAnswer part_000 en icanhazipUrl = Some ip \<longrightarrow>
        fst (getCurrentIp_part_000 en []) = Inr ip
        \<and> attemptsAgainst ipifyUrl (snd (getCurrentIp_part_000 en [])) = MAX_RETRIES part_000 + 1
        \<and> attemptsAgainst httpbinUrl (snd (getCurrentIp_part_000 en [])) = 0
        \<and> attemptsAgainst ifconfigUrl (snd (getCurrentIp_part_000 en [])) = 0)"
proof -
  have h: "fst (httpRequest p en url k tr0) = Inr ip
      \<longleftrightarrow> accepted p en url (ipHttp en url k) = Some ip"
    by (simp add: httpRequest_def parseResponse_accepted)
  have r: "accepted p en url answer = Some ip \<longleftrightarrow>
        (\<exists>data text. answer = Response 200 data \<and> sourceValue p en url data = Some text
            \<and> trim text = ip \<and> ip \<noteq> [])"
    by (cases answer) (auto simp: accepted_def split: option.splits if_splits)
  note a = getCurrentIp_answer [of en tr] tryServices_answer [of en services tr]
  note b = getCurrentIp_short_circuit [of en ip] getCurrentIp_part_000_short_circuit [of en ip]
  note c = getCurrentIp_fallback_count [of en ip] getCurrentIp_part_000_fallback_count [of en ip]
  show ?thesis
    unfolding getCurrentIp_part_000_def [symmetric]
    using h r a(1) a(2) [folded getCurrentIp_part_000_def] b c by blast
qed

text \<open>
  The fallback in the environment where ipify is down, the short circuit in the one where
  ipify answers at once, and the acceptance rule on three answers of icanhazip: the
  address with status 200 is accepted, the same body with status 503 is not, and neither
  is a body of spaces.
\<close>

theorem getCurrentIp_first_source_wins_witness:
  "sourceFails ipDetector_ts env_A_down ipifyUrl
   \<and> sourceAnswer ipDetector_ts env_A_down icanhazipUrl = Some ''203.0.113.7''
   \<and> fst (getCurrentIp env_A_down []) = Inr ''203.0.113.7''
   \<and> attemptsAgainst ipifyUrl (snd (getCurrentIp env_A_down [])) = 4
   \<and> sourceFails part_000 env_A_down ipifyUrl
   \<and> sourceAnswer part_000 env_A_down icanhazipUrl = Some ''203.0.113.7''
   \<and> fst (getCurrentIp_part_000 env_A_down []) = Inr ''203.0.113.7''
   \<and> attemptsAgainst ipifyUrl (snd (getCurrentIp_part_000 env_A_down [])) = 4
   \<and> attemptsAgainst httpbinUrl (snd (getCurrentIp_part_000 env_A_down [])) = 0
   \<and> sourceAnswer ipDetector_ts env_ip_changes ipifyUrl = Some ''198.51.100.2''
   \<and> fst (getCurrentIp env_ip_changes []) = Inr ''198.51.100.2''
   \<and> attemptsAgainst icanhazipUrl (snd (getCurrentIp env_ip_changes [])) = 0
   \<and> ipHttp env_A_down icanhazipUrl 0 = Response 200 ''203.0.113.7''
   \<and> fst (httpRequest ipDetector_ts env_A_down icanhazipUrl 0 []) = Inr ''203.0.113.7''
   \<and> accepted ipDetector_ts env_A_down icanhazipUrl (Response 503 ''203.0.113.7'') = None
   \<and> accepted ipDetector_ts env_A_down icanhazipUrl (Response 200 ''  '') = None"
proof -
  note t = getCurrentIp_first_source_wins
  from t [of ipDetector_ts env_A_down icanhazipUrl 0 "[]" "''203.0.113.7''" _ "[]"]
    env_A_down_facts
  have 1: "fst (getCurrentIp env_A_down []) = Inr ''203.0.113.7''
      \<and> attemptsAgainst ipifyUrl (snd (getCurrentIp env_A_down [])) = MAX_RETRIES ipDetector_ts + 1
      \<and> fst (getCurrentIp_part_000 env_A_down []) = Inr ''203.0.113.7''
      \<and> attemptsAgainst ipifyUrl (snd (getCurrentIp_part_000 env_A_down [])) = MAX_RETRIES part_000 + 1
      \<and> attemptsAgainst httpbinUrl (snd (getCurrentIp_part_000 env_A_down [])) = 0"
    by blast
  have s: "sourceAnswer ipDetector_ts env_ip_changes ipifyUrl = Some ''198.51.100.2''"
    by (simp add: sourceAnswer_def accepted_def sourceValue_def env_ip_changes_def
          ipDetector_ts_def ipifyUrl_def trim_concrete upt_rec [of 0])
  from t [of ipDetector_ts env_ip_changes ipifyUrl 0 "[]" "''198.51.100.2''" _ "[]"] s
  have 2: "fst (getCurrentIp env_ip_changes []) = Inr ''198.51.100.2''
      \<and> attemptsAgainst icanhazipUrl (snd (getCurrentIp env_ip_changes [])) = 0"
    by blast
  have v: "sourceValue ipDetector_ts env_A_down icanhazipUrl data = Some data" for data
    by (simp add: sourceValue_def ipDetector_ts_def icanhazipUrl_def)
  have i: "ipHttp env_A_down icanhazipUrl 0 = Response 200 ''203.0.113.7''"
    by (simp add: env_A_down_def ipifyUrl_def icanhazipUrl_def)
  have a: "accepted ipDetector_ts env_A_down icanhazipUrl (Response 200 ''203.0.113.7'')
      = Some ''203.0.113.7''"
    using t [of ipDetector_ts env_A_down icanhazipUrl 0 "[]" "''203.0.113.7''"
        "Response 200 ''203.0.113.7''" "[]"] v trim_concrete(1)
    by blast
  have q: "fst (httpRequest ipDetector_ts env_A_down icanhazipUrl 0 []) = Inr ''203.0.113.7''"
    using t [of ipDetector_ts env_A_down icanhazipUrl 0 "[]" "''203.0.113.7''"
        "Response 200 ''203.0.113.7''" "[]"] a i
    by simp
  have e: "trim ''  '' = []"
    by (simp add: trim_def trimStart.simps trimEnd.simps endsWith_def whiteSpace_def)
  have n: "accepted ipDetector_ts env_A_down icanhazipUrl (Response 503 ''203.0.113.7'') = None"
    "accepted ipDetector_ts env_A_down icanhazipUrl (Response 200 ''  '') = None"
    by (simp_all add: accepted_def v e)
  from 1 2 s env_A_down_facts i q n show ?thesis by simp
qed

text \<open>
  The claim as stated fails on both of its points. With ipify timing out at every attempt
  the address comes from icanhazip, but ipify has been requested four times, one more than
  its retry count of 3. And no syntax is checked: when icanhazip answers status 200 with
  an HTML page, both versions return the page as the address, although it is no address
  string and, in the four-source version, ifconfig.me would have answered \<open>203.0.113.7\<close>;
  ifconfig.me is never requested.
\<close>

theorem retry_count_counterexample:
  "fst (getCurrentIp env_A_down []) = Inr ''203.0.113.7''
   \<and> attemptsAgainst ipifyUrl (snd (getCurrentIp env_A_down [])) = 4
   \<and> MAX_RETRIES ipDetector_ts = 3
   \<and> fst (getCurrentIp_part_000 env_A_down []) = Inr ''203.0.113.7''
   \<and> attemptsAgainst ipifyUrl (snd (getCurrentIp_part_000 env_A_down [])) = 4
   \<and> MAX_RETRIES part_000 = 3
   \<and> fst (getCurrentIp env_html []) = Inr ''<html>Too Many Requests</html>''
   \<and> fst (getCurrentIp_part_000 env_html []) = Inr ''<html>Too Many Requests</html>''
   \<and> \<not> addressChars ''<html>Too Many Requests</html>''
   \<and> fst (httpRequest part_000 env_html ifconfigUrl 0 []) = Inr ''203.0.113.7''
   \<and> addressChars ''203.0.113.7''
   \<and> attemptsAgainst ifconfigUrl (snd (getCurrentIp_part_000 env_html [])) = 0"
proof -
  have h: "fst (httpRequest part_000 env_html ifconfigUrl 0 []) = Inr ''203.0.113.7''"
    using env_html_facts(5) by (simp add: httpRequest_def parseResponse_accepted)
  have c: "\<not> addressChars ''<html>Too Many Requests</html>''" "addressChars ''203.0.113.7''"
    by (simp_all add: addressChars_def)
  show ?thesis
    using getCurrentIp_fallback_count [OF env_A_down_facts(1,2)]
      getCurrentIp_part_000_fallback_count [OF env_A_down_facts(3,4)]
      getCurrentIp_fallback_count [OF env_html_facts(1,2)]
      getCurrentIp_part_000_fallback_count [OF env_html_facts(3,4)] h c
    by simp
qed

lemma attemptResult_nonempty: "attemptResult p en url k = Inr ip \<Longrightarrow> ip \<noteq> []"
  by (auto simp: attemptResult_def parseResponse_def split: http_result.splits option.splits if_splits)

lemma retryLoop_trace:
  "\<exists>ev. snd (retryLoop p (httpRequest p en url) attempt lastError tr) = tr @ ev
        \<and> list_all isDetectionEvent ev"
proof (induction n \<equiv> "MAX_RETRIES p + 1 - attempt" arbitrary: attempt lastError tr)
  case 0
  then have "\<not> attempt \<le> MAX_RETRIES p" by simp
  then show ?case
    by (cases lastError) (simp_all add: retryLoop_unfold [of p en url attempt])
next
  case (Suc n)
  then have le: "attempt \<le> MAX_RETRIES p" by simp
  show ?case
  proof (cases "attemptResult p en url attempt")
    case (Inr ip)
    with le show ?thesis
      by (simp add: retryLoop_unfold [of p en url attempt] isDetectionEvent_def)
  next
    case (Inl e)
    let ?pre = "HttpGet url # (if attempt < MAX_RETRIES p then [Sleep (retryDelay p attempt)] else [])"
    have n: "n = MAX_RETRIES p + 1 - Suc attempt" using Suc.hyps(2) by simp
    from Suc.hyps(1) [OF n, of "Some e" "tr @ ?pre"] obtain ev where
      "snd (retryLoop p (httpRequest p en url) (Suc attempt) (Some e) (tr @ ?pre)) = (tr @ ?pre) @ ev"
      "list_all isDetectionEvent ev" by blast
    then have "snd (retryLoop p (httpRequest p en url) attempt lastError tr) = tr @ (?pre @ ev)
        \<and> list_all isDetectionEvent (?pre @ ev)"
      using le Inl by (simp add: retryLoop_unfold [of p en url attempt] isDetectionEvent_def)
    then show ?thesis by blast
  qed
qed

lemma fetchFrom_trace:
  "\<exists>ev. snd (fetchFrom p en url tr) = tr @ ev \<and> list_all isDetectionEvent ev"
  using retryLoop_trace [of p en url 0 None tr] by (simp add: fetchFrom_def retryOperation_def)

lemma getCurrentIp_trace:
  "\<exists>ev. snd (getCurrentIp en tr) = tr @ ev \<and> list_all isDetectionEvent ev"
proof -
  obtain r1 tr1 where 1: "fetchFrom ipDetector_ts en ipifyUrl tr = (r1, tr1)" by force
  obtain ev1 where e1: "tr1 = tr @ ev1" "list_all isDetectionEvent ev1"
    using fetchFrom_trace [of ipDetector_ts en ipifyUrl tr] 1 by auto
  obtain r2 tr2 where 2: "fetchFrom ipDetector_ts en icanhazipUrl tr1 = (r2, tr2)" by force
  obtain ev2 where e2: "tr2 = tr1 @ ev2" "list_all isDetectionEvent ev2"
    using fetchFrom_trace [of ipDetector_ts en icanhazipUrl tr1] 2 by auto
  have "snd (getCurrentIp en tr) = tr @ ev1 \<or> snd (getCurrentIp en tr) = tr @ (ev1 @ ev2)"
    using 1 2 e1 e2 by (cases r1; cases r2) (simp_all add: getCurrentIp_def)
  then show ?thesis using e1 e2 by (metis list_all_append)
qed

lemma getCurrentIp_nonempty:
  assumes "getCurrentIp en tr = (Inr ip, tr')"
  shows "ip \<noteq> []"
proof -
  obtain r1 tr1 where 1: "fetchFrom ipDetector_ts en ipifyUrl tr = (r1, tr1)" by force
  obtain r2 tr2 where 2: "fetchFrom ipDetector_ts en icanhazipUrl tr1 = (r2, tr2)" by force
  have "r1 = Inr ip \<or> r2 = Inr ip"
    using assms 1 2 by (cases r1; cases r2) (simp_all add: getCurrentIp_def)
  then show ?thesis
    using 1 2 fetchFrom_Inr [of ipDetector_ts en ipifyUrl tr ip tr1]
      fetchFrom_Inr [of ipDetector_ts en icanhazipUrl tr1 ip tr2] attemptResult_nonempty
    by blast
qed

section \<open>One reconciliation cycle\<close>

lemma getDnsRecord_eq:
  "getDnsRecord en answer w =
     (readOutcome answer, w\<lparr>effects := effects w @ [CfRequest ''GET'' (listUrl en) None]\<rparr>)"
  by (cases answer)
     (auto simp: getDnsRecord_def makeRequest_def readOutcome_def split: list.splits option.splits)

lemma updateDnsRecord_eq:
  "updateDnsRecord en ip w = (writeSucceeds en, w\<lparr>effects := effects w @ writeRequests en ip\<rparr>)"
  by (cases "updPutResp en")
     (auto simp: updateDnsRecord_def getDnsRecord_eq updateRecord_def makeRequest_def
        writeSucceeds_def writeRequests_def putAccepted_def split: sum.splits option.splits)

lemma addUpdateEntry_ok:
  assumes "historyFile w = Some history" "historyWritable w"
  shows "addUpdateEntry entry w =
    Inr (w\<lparr>historyFile := Some (pushEntry entry history),
           effects := effects w @ [HistoryWritten (pushEntry entry history)]\<rparr>)"
  using assms
  by (simp add: addUpdateEntry_def readHistory_def writeHistory_def pushEntry_def Let_def)

lemma updateLastKnownIp_ok:
  assumes "configFile w = Some config" "configWritable w"
  shows "updateLastKnownIp (nowConfig en) ip w =
    Inr (w\<lparr>configFile := Some (persistedIp en ip config),
           effects := effects w @ [ConfigWritten (persistedIp en ip config)]\<rparr>)"
  using assms
  by (simp add: updateLastKnownIp_def readConfig_def writeConfig_def persistedIp_def Let_def)

lemma tryBlock_detected:
  assumes "getCurrentIp en (effects w) = (Inr ip, tr)" "configFile w = Some config"
  shows "tryBlock en w =
     (let w2 = w\<lparr>effects := tr @ [CfRequest ''GET'' (listUrl en) None]\<rparr> in
      if changed en config ip
      then changedBranch en config (dnsIp en) (dnsReadAccessible en) ip w2
      else (Inr (False, ip), w2\<lparr>monitorStatus := Active\<rparr>))"
  using assms
  by (cases "readOutcome (dnsReadResp en)")
     (simp_all add: tryBlock_def readConfig_def getDnsRecord_eq changed_def dnsIp_def
        dnsReadAccessible_def Let_def)

lemma changedBranch_healthy:
  assumes "storageHealthy w config history"
  shows "changedBranch en config d acc ip w =
     (let quiet = (isTestMode en acc \<or> writeSucceeds en);
          h1 = pushEntry (updateEntryFor en d config ip (writeSucceeds en)) history
      in (if quiet then Inr (True, ip) else Inl (Error ''DNS update failed: ''),
          w\<lparr>configFile := Some (persistedIp en ip config),
            historyFile := Some h1,
            monitorStatus := (if quiet then Active else ErrorStatus),
            effects := effects w @ [ConfigWritten (persistedIp en ip config)] @ writeRequests en ip
                         @ [HistoryWritten h1]\<rparr>))"
  using assms
  by (simp add: changedBranch_def storageHealthy_def updateLastKnownIp_ok [of w config]
        updateDnsRecord_eq addUpdateEntry_ok [of _ history] Let_def)

lemma beginCheck_fields [simp]:
  "configFile (beginCheck w) = configFile w"
  "configWritable (beginCheck w) = configWritable w"
  "historyFile (beginCheck w) = historyFile w"
  "historyWritable (beginCheck w) = historyWritable w"
  "interval (beginCheck w) = interval w"
  "timers (beginCheck w) = timers w"
  "nextHandle (beginCheck w) = nextHandle w"
  "inflight (beginCheck w) = inflight w"
  "isChecking (beginCheck w)"
  "monitorStatus (beginCheck w) = Checking"
  "effects (beginCheck w) = effects w @ [ConsoleLog ''Checking IP address...'']"
  by (simp_all add: beginCheck_def)

lemma finishCheck_unchanged:
  assumes "getCurrentIp en (effects w) = (Inr ip, tr)" "configFile w = Some config"
    and "\<not> changed en config ip"
  shows "finishCheck en w =
     (Inr (False, ip),
      w\<lparr>isChecking := False, monitorStatus := Active,
        effects := tr @ [CfRequest ''GET'' (listUrl en) None]\<rparr>)"
  using assms by (simp add: finishCheck_def tryBlock_detected [of en w ip tr config] Let_def)

lemma finishCheck_changed:
  assumes "getCurrentIp en (effects w) = (Inr ip, tr)" "storageHealthy w config history"
    and "changed en config ip"
  shows "finishCheck en w =
     (let quiet = (isTestMode en (dnsReadAccessible en) \<or> writeSucceeds en);
          h1 = pushEntry (updateEntryFor en (dnsIp en) config ip (writeSucceeds en)) history;
          h2 = pushEntry (failureEntry en) h1
      in (if quiet then Inr (True, ip) else Inl (Error ''DNS update failed: ''),
          w\<lparr>isChecking := False,
            monitorStatus := (if quiet then Active else ErrorStatus),
            configFile := Some (persistedIp en ip config),
            historyFile := Some (if quiet then h1 else h2),
            effects := tr @ [CfRequest ''GET'' (listUrl en) None, ConfigWritten (persistedIp en ip config)]
                         @ writeRequests en ip
                         @ (if quiet then [HistoryWritten h1] else [HistoryWritten h1, HistoryWritten h2])\<rparr>))"
proof -
  let ?w2 = "w\<lparr>effects := tr @ [CfRequest ''GET'' (listUrl en) None]\<rparr>"
  have cfg: "configFile w = Some config" using assms(2) by (simp add: storageHealthy_def)
  have h: "storageHealthy ?w2 config history" using assms(2) by (simp add: storageHealthy_def)
  have t: "tryBlock en w = changedBranch en config (dnsIp en) (dnsReadAccessible en) ip ?w2"
    using assms(1,3) cfg by (simp add: tryBlock_detected [of en w ip tr config] Let_def)
  show ?thesis
  proof (cases "isTestMode en (dnsReadAccessible en) \<or> writeSucceeds en")
    case True
    then show ?thesis
      unfolding finishCheck_def t changedBranch_healthy [OF h] by (simp add: Let_def)
  next
    case False
    let ?h1 = "pushEntry (updateEntryFor en (dnsIp en) config ip (writeSucceeds en)) history"
    let ?w3 = "?w2\<lparr>configFile := Some (persistedIp en ip config),
            historyFile := Some ?h1,
            monitorStatus := ErrorStatus,
            effects := effects ?w2 @ [ConfigWritten (persistedIp en ip config)] @ writeRequests en ip
                         @ [HistoryWritten ?h1]\<rparr>"
    have c: "changedBranch en config (dnsIp en) (dnsReadAccessible en) ip ?w2 = (Inl (Error ''DNS update failed: ''), ?w3)"
      using False unfolding changedBranch_healthy [OF h] by (simp add: Let_def)
    have hw: "historyFile ?w3 = Some ?h1" "historyWritable ?w3"
      using assms(2) by (simp_all add: storageHealthy_def)
    have "catchBlock en ?w3 =
        ?w3\<lparr>historyFile := Some (pushEntry (failureEntry en) ?h1),
           effects := effects ?w3 @ [HistoryWritten (pushEntry (failureEntry en) ?h1)]\<rparr>"
      using hw by (simp add: catchBlock_def Let_def addUpdateEntry_ok [of _ ?h1])
    then show ?thesis
      using False unfolding finishCheck_def t c by (simp add: Let_def)
  qed
qed

lemma finishCheck_undetected:
  assumes "getCurrentIp en (effects w) = (Inl e, tr)"
  shows "finishCheck en w = (Inl e, (catchBlock en (w\<lparr>effects := tr\<rparr>))\<lparr>isChecking := False\<rparr>)"
  using assms by (simp add: finishCheck_def tryBlock_def)

lemma pushEntry_twice:
  "updates (pushEntry e2 (pushEntry e1 h)) = take 10 (e2 # e1 # updates h)"
  by (simp add: pushEntry_def take_Cons')

lemma ipify_answers:
  "getCurrentIp env_ip_changes tr = (Inr ''198.51.100.2'', tr @ [HttpGet ipifyUrl])"
  "getCurrentIp env_write_fails tr = (Inr ''198.51.100.2'', tr @ [HttpGet ipifyUrl])"
  by (simp_all add: getCurrentIp_def fetchFrom_def retryOperation_def retryLoop.simps [of _ _ 0]
        httpRequest_def parseResponse_def env_ip_changes_def env_write_fails_def ipDetector_ts_def
        ipifyUrl_def trim_concrete)

lemma world0_healthy: "storageHealthy world0 config0 \<lparr>updates = []\<rparr>"
  by (simp add: storageHealthy_def world0_def)

lemma env_ip_changes_detects:
  "detects env_ip_changes world0 ''198.51.100.2'' [ConsoleLog ''Checking IP address...'', HttpGet ipifyUrl]"
  by (simp add: detects_def ipify_answers) (simp add: world0_def)

lemma env_ip_changes_facts:
  "dnsReadAccessible env_ip_changes"
  "dnsIp env_ip_changes = Some ''198.51.100.1''"
  "writeSucceeds env_ip_changes"
  "\<not> isTestMode env_ip_changes True"
  by (simp_all add: dnsReadAccessible_def dnsIp_def
        readOutcome_def dnsRecordIpOf_def writeSucceeds_def putAccepted_def isTestMode_def
        opt_includes_def env_write_fails_def env_ip_changes_def listing0_def record0_def)

lemma env_write_fails_detects:
  "detects env_write_fails world0 ''198.51.100.2'' [ConsoleLog ''Checking IP address...'', HttpGet ipifyUrl]"
  by (simp add: detects_def ipify_answers) (simp add: world0_def)

lemma env_write_fails_facts:
  "dnsReadAccessible env_write_fails"
  "dnsIp env_write_fails = Some ''198.51.100.1''"
  "\<not> writeSucceeds env_write_fails"
  "\<not> isTestMode env_write_fails True"
  by (simp_all add: dnsReadAccessible_def dnsIp_def
        readOutcome_def dnsRecordIpOf_def writeSucceeds_def putAccepted_def isTestMode_def
        opt_includes_def env_write_fails_def env_ip_changes_def listing0_def record0_def)

lemma config0_ip: "lastKnownIp config0 = Some ''198.51.100.1''"
  by (simp add: config0_def)

lemma env_all_equal_detects:
  "detects env_all_equal world0 ''198.51.100.1'' [ConsoleLog ''Checking IP address...'', HttpGet ipifyUrl]"
  by (simp add: detects_def getCurrentIp_def fetchFrom_def retryOperation_def retryLoop.simps [of _ _ 0]
        httpRequest_def parseResponse_def env_all_equal_def ipDetector_ts_def
        ipifyUrl_def trim_concrete world0_def)

lemma env_all_equal_facts:
  "readOutcome (dnsReadResp env_all_equal) = Inr (Some record0)"
  "content record0 = ''198.51.100.1''"
  by (simp_all add: readOutcome_def env_all_equal_def env_ip_changes_def listing0_def record0_def)

lemma finishCheck_clears_flag: "\<not> isChecking (snd (finishCheck en w))"
  by (cases "tryBlock en w"; cases "fst (tryBlock en w)") (simp_all add: finishCheck_def)

lemma performIpCheck_clears_flag: "\<not> isChecking (snd (performIpCheck en w))"
  by (simp add: performIpCheck_def finishCheck_clears_flag)

lemma getCurrentIp_error:
  "fst (getCurrentIp en tr) = Inl e \<Longrightarrow> e = Error ''Failed to detect IP address''"
  using getCurrentIp_answer [of en tr]
  by (cases "detectSpec ipDetector_ts en [ipifyUrl, icanhazipUrl]") simp_all

lemma updateLastKnownIp_error:
  "updateLastKnownIp now ip w = Inl e \<Longrightarrow> e = Error ''Failed to update last known IP''"
  by (auto simp: updateLastKnownIp_def split: sum.splits)

lemma addUpdateEntry_error:
  "addUpdateEntry entry w = Inl e \<Longrightarrow> e = Error ''Failed to add update entry''"
  by (auto simp: addUpdateEntry_def Let_def split: sum.splits)

lemma changedBranch_error:
  assumes "fst (changedBranch en config d acc ip w) = Inl e"
  shows "e \<in> Error ` cycleErrors"
proof (cases "updateLastKnownIp (nowConfig en) ip w")
  case (Inl e1)
  with assms show ?thesis
    using updateLastKnownIp_error [of "nowConfig en" ip w e1]
    by (simp add: changedBranch_def cycleErrors_def)
next
  case (Inr w1)
  obtain ok w2 where u: "updateDnsRecord en ip w1 = (ok, w2)" by force
  show ?thesis
  proof (cases "addUpdateEntry (updateEntryFor en d config ip ok) w2")
    case (Inl e2)
    with assms Inr u show ?thesis
      using addUpdateEntry_error [of _ w2 e2]
      by (simp add: changedBranch_def cycleErrors_def)
  next
    case (Inr w3)
    with assms \<open>updateLastKnownIp (nowConfig en) ip w = Inr w1\<close> u show ?thesis
      by (auto simp: changedBranch_def cycleErrors_def split: if_splits)
  qed
qed

lemma tryBlock_error:
  assumes "fst (tryBlock en w) = Inl e"
  shows "e \<in> Error ` cycleErrors"
proof (cases "getCurrentIp en (effects w)")
  case (Pair r tr)
  show ?thesis
  proof (cases r)
    case (Inl e0)
    with Pair assms have "e = Error ''Failed to detect IP address''"
      using getCurrentIp_error [of en "effects w" e0] by (simp add: tryBlock_def)
    then show ?thesis by (simp add: cycleErrors_def)
  next
    case (Inr ip)
    show ?thesis
    proof (cases "configFile w")
      case None
      with Pair Inr assms show ?thesis
        by (simp add: tryBlock_def readConfig_def cycleErrors_def)
    next
      case (Some config)
      with Pair Inr assms show ?thesis
        using changedBranch_error [of en config "dnsIp en" "dnsReadAccessible en" ip _ e]
        by (simp add: tryBlock_detected [of en w ip tr config] Let_def split: if_splits)
    qed
  qed
qed

lemma performIpCheck_error:
  assumes "fst (performIpCheck en w) = Inl e"
  shows "e \<in> Error ` cycleErrors"
proof -
  have "fst (finishCheck en w0) = fst (tryBlock en w0)" for w0
    by (cases "tryBlock en w0"; cases "fst (tryBlock en w0)") (simp_all add: finishCheck_def)
  with assms show ?thesis
    using tryBlock_error [of en "beginCheck w" e] by (simp add: performIpCheck_def)
qed

lemma forceResult_message: "fc_message (forceResult r) \<noteq> ''Check already in progress''"
proof (cases r)
  case (Inl e)
  then show ?thesis by (cases e) (simp add: forceResult_def)
next
  case (Inr v)
  then show ?thesis by (cases v) (simp add: forceResult_def)
qed

lemma env_all_down_fails:
  "getCurrentIp env_all_down tr =
     (Inl (Error ''Failed to detect IP address''),
      tr @ [HttpGet ipifyUrl, Sleep 1000, HttpGet ipifyUrl, Sleep 2000, HttpGet ipifyUrl, Sleep 4000,
            HttpGet ipifyUrl,
            HttpGet icanhazipUrl, Sleep 1000, HttpGet icanhazipUrl, Sleep 2000, HttpGet icanhazipUrl,
            Sleep 4000, HttpGet icanhazipUrl])"
  by (simp add: getCurrentIp_def fetchFrom_def retryOperation_def retryLoop.simps httpRequest_def
        parseResponse_def env_all_down_def ipDetector_ts_def retryDelay_def)

lemma env_all_equal_answers:
  "getCurrentIp env_all_equal tr = (Inr ''198.51.100.1'', tr @ [HttpGet ipifyUrl])"
  by (simp add: getCurrentIp_def fetchFrom_def retryOperation_def retryLoop.simps [of _ _ 0]
        httpRequest_def parseResponse_def env_all_equal_def ipDetector_ts_def
        ipifyUrl_def trim_concrete)

lemma env_all_equal_unchanged: "\<not> changed env_all_equal config0 ''198.51.100.1''"
  by (simp add: changed_def config0_ip dnsIp_def env_all_equal_facts dnsRecordIpOf_def)

lemma afterCheck_keeps_flag: "isChecking (afterCheck r w) = isChecking w"
  by (cases r) (auto simp: afterCheck_def scheduleNextCheck_def Let_def split: sum.splits)

lemma afterCheck_keeps_inflight: "inflight (afterCheck r w) = inflight w"
  by (cases r) (auto simp: afterCheck_def scheduleNextCheck_def Let_def split: sum.splits)

lemma step_idle_unchecked:
  assumes "inflight w = [] \<longrightarrow> \<not> isChecking w" and "step a w = Some w'"
  shows "inflight w' = [] \<longrightarrow> \<not> isChecking w'"
proof (cases a)
  case Start
  with assms(2) show ?thesis by (auto simp: launch_def Let_def)
next
  case Stop
  with assms show ?thesis
    by (auto simp: stop_def clearTimeout_def Let_def split: option.splits)
next
  case ForceCheck
  with assms show ?thesis by (auto simp: launch_def Let_def split: if_splits)
next
  case (TimerFires h)
  with assms(2) show ?thesis by (auto simp: launch_def Let_def split: if_splits)
next
  case (Settles i en)
  obtain r w1 where f: "finishCheck en (w\<lparr>inflight := removeAt i (inflight w)\<rparr>) = (r, w1)" by force
  have "\<not> isChecking w1"
    using finishCheck_clears_flag [of en "w\<lparr>inflight := removeAt i (inflight w)\<rparr>"] f by simp
  with Settles assms(2) f show ?thesis
    by (auto simp: afterCheck_keeps_flag split: if_splits)
qed

lemma run_idle_unchecked:
  assumes "inflight w = [] \<longrightarrow> \<not> isChecking w" and "run acts w = Some w'"
  shows "inflight w' = [] \<longrightarrow> \<not> isChecking w'"
  using assms
proof (induction acts arbitrary: w)
  case Nil
  then show ?case by simp
next
  case (Cons a acts)
  then obtain w1 where s: "step a w = Some w1" and r: "run acts w1 = Some w'"
    by (auto split: option.splits)
  from Cons.IH [OF step_idle_unchecked [OF Cons.prems(1) s] r] show ?case .
qed

lemma forceCheck_accepted:
  assumes "\<not> isChecking w"
  shows "fc_message (fst (forceCheck en w)) \<noteq> ''Check already in progress''"
proof -
  obtain r w1 where "performIpCheck en w = (r, w1)" by force
  with assms show ?thesis using forceResult_message [of r] by (simp add: forceCheck_def)
qed

lemma afterCheck_schedules:
  assumes "configFile w = Some config"
  shows "afterCheck r w =
     w\<lparr>interval := Some (nextHandle w),
       timers := timers w @ [(nextHandle w, timeoutDelay (checkIntervalMinutes config * 60 * 1000))],
       nextHandle := nextHandle w + 1\<rparr>"
  using assms by (cases r) (simp_all add: afterCheck_def scheduleNextCheck_def readConfig_def Let_def)

section \<open>Claims about one reconciliation cycle\<close>

text \<open>
  C1. In a cycle whose detected address differs from the persisted one while the DNS read
  succeeded (storage being readable and writable), the detected address is written to the
  configuration before \<open>updateDnsRecord\<close> is called with it: the provider write starts
  from a world whose configuration file already holds the new address and whose trace
  already ends in that write. The history then receives an entry whose \<open>oldIp\<close> is the
  address read from DNS if there is one and the previously persisted address otherwise,
  whose \<open>newIp\<close> is the detected address and whose status and \<open>dnsRecordUpdated\<close> are
  the result of the provider write; when the write succeeds the monitor ends active.
\<close>

theorem changed_cycle_persists_then_writes:
  assumes "detects en w ip tr" and "storageHealthy w config history"
    and "lastKnownIp config \<noteq> Some ip" and "dnsReadAccessible en"
  shows
    "let persisted = config\<lparr>lastKnownIp := Some ip, updatedAt := nowConfig en\<rparr>;
         beforeWrite = (beginCheck w)\<lparr>configFile := Some persisted,
                         effects := tr @ [CfRequest ''GET'' (listUrl en) None, ConfigWritten persisted]\<rparr>;
         written = fst (updateDnsRecord en ip beforeWrite);
         entry = \<lparr>entryId = uuidUpdate en, timestamp = nowUpdate en,
                  oldIp = (case dnsIp en of Some d \<Rightarrow> Some d | None \<Rightarrow> lastKnownIp config),
                  newIp = ip,
                  status = (if written then Success else Failed),
                  dnsRecordUpdated = written\<rparr>;
         w' = snd (performIpCheck en w)
     in configFile w' = Some persisted
        \<and> (\<exists>rest. effects w' =
              effects (snd (updateDnsRecord en ip beforeWrite)) @ HistoryWritten (pushEntry entry history) # rest)
        \<and> (\<exists>newer h'. length newer \<le> 1 \<and> historyFile w' = Some h'
               \<and> updates h' = take 10 (newer @ entry # updates history))
        \<and> (written \<longrightarrow> monitorStatus w' = Active \<and> fst (performIpCheck en w) = Inr (True, ip))"
proof -
  have d: "getCurrentIp en (effects (beginCheck w)) = (Inr ip, tr)"
    using assms(1) by (simp add: detects_def)
  have h: "storageHealthy (beginCheck w) config history"
    using assms(2) by (simp add: storageHealthy_def)
  have c: "changed en config ip" using assms(3) by (simp add: changed_def)
  let ?ok = "writeSucceeds en"
  let ?quiet = "isTestMode en (dnsReadAccessible en) \<or> ?ok"
  let ?entry = "updateEntryFor en (dnsIp en) config ip ?ok"
  let ?h1 = "pushEntry ?entry history"
  let ?h2 = "pushEntry (failureEntry en) ?h1"
  let ?pre = "tr @ [CfRequest ''GET'' (listUrl en) None, ConfigWritten (persistedIp en ip config)]
                @ writeRequests en ip"
  from finishCheck_changed [OF d h c]
  have r: "fst (performIpCheck en w) = (if ?quiet then Inr (True, ip) else Inl (Error ''DNS update failed: ''))"
    and cf: "configFile (snd (performIpCheck en w)) = Some (persistedIp en ip config)"
    and st: "monitorStatus (snd (performIpCheck en w)) = (if ?quiet then Active else ErrorStatus)"
    and hf: "historyFile (snd (performIpCheck en w)) = Some (if ?quiet then ?h1 else ?h2)"
    and ef: "effects (snd (performIpCheck en w)) =
               ?pre @ (if ?quiet then [HistoryWritten ?h1] else [HistoryWritten ?h1, HistoryWritten ?h2])"
    by (simp_all add: performIpCheck_def Let_def)
  have "\<exists>rest. effects (snd (performIpCheck en w)) = ?pre @ HistoryWritten ?h1 # rest"
    unfolding ef by (cases ?quiet) simp_all
  moreover have "\<exists>newer h'. length newer \<le> 1 \<and> historyFile (snd (performIpCheck en w)) = Some h'
      \<and> updates h' = take 10 (newer @ ?entry # updates history)"
  proof (cases ?quiet)
    case True
    then show ?thesis unfolding hf
      by (intro exI [of _ "[]"] exI [of _ ?h1]) (simp add: pushEntry_def)
  next
    case False
    then show ?thesis unfolding hf
      by (intro exI [of _ "[failureEntry en]"] exI [of _ ?h2]) (simp add: pushEntry_twice)
  qed
  moreover have "?ok \<longrightarrow> monitorStatus (snd (performIpCheck en w)) = Active
      \<and> fst (performIpCheck en w) = Inr (True, ip)"
    using r st by simp
  ultimately show ?thesis
    using cf by (simp add: Let_def updateDnsRecord_eq persistedIp_def updateEntryFor_def)
qed

text \<open>
  The scenario of the specification: \<open>198.51.100.1\<close> persisted and in DNS,
  \<open>198.51.100.2\<close> detected, the provider accepts the write.
\<close>

theorem changed_cycle_persists_then_writes_witness:
  "detects env_ip_changes world0 ''198.51.100.2'' [ConsoleLog ''Checking IP address...'', HttpGet ipifyUrl]
   \<and> storageHealthy world0 config0 \<lparr>updates = []\<rparr>
   \<and> lastKnownIp config0 \<noteq> Some ''198.51.100.2''
   \<and> dnsReadAccessible env_ip_changes
   \<and> lastKnownIp (the (configFile (snd (performIpCheck env_ip_changes world0)))) = Some ''198.51.100.2''
   \<and> monitorStatus (snd (performIpCheck env_ip_changes world0)) = Active
   \<and> fst (performIpCheck env_ip_changes world0) = Inr (True, ''198.51.100.2'')"
proof -
  have n: "lastKnownIp config0 \<noteq> Some ''198.51.100.2''" by (simp add: config0_ip)
  have ok: "fst (updateDnsRecord env_ip_changes ip w)" for ip w
    by (simp add: updateDnsRecord_eq env_ip_changes_facts)
  from changed_cycle_persists_then_writes [OF env_ip_changes_detects world0_healthy n env_ip_changes_facts(1)]
  have "lastKnownIp (the (configFile (snd (performIpCheck env_ip_changes world0)))) = Some ''198.51.100.2''
      \<and> monitorStatus (snd (performIpCheck env_ip_changes world0)) = Active
      \<and> fst (performIpCheck env_ip_changes world0) = Inr (True, ''198.51.100.2'')"
    by (simp add: Let_def ok)
  with env_ip_changes_detects env_ip_changes_facts(1) world0_healthy n show ?thesis by simp
qed

text \<open>
  C4. With storage readable and writable, the flag a cycle returns is
  \<open>persisted \<noteq> detected \<or> (DNS read accessible \<and> DNS address \<noteq> detected)\<close>; when it
  holds the detected address is persisted and the history is written, and when it does not
  the cycle only adds its detection requests and the DNS read to the trace, leaves both
  files as they were and ends active. In particular this is so when the persisted address
  and the content of the DNS record both equal the detected address.
\<close>

theorem cycle_updates_iff_changed:
  assumes "detects en w ip tr" and "storageHealthy w config history"
  shows
    "let ipChanged = (lastKnownIp config \<noteq> Some ip \<or> (dnsReadAccessible en \<and> dnsIp en \<noteq> Some ip));
         r = fst (performIpCheck en w);
         w' = snd (performIpCheck en w)
     in (case r of
           Inr (flag, current) \<Rightarrow> flag = ipChanged \<and> current = ip
         | Inl e \<Rightarrow> ipChanged \<and> e = Error ''DNS update failed: '')
        \<and> (ipChanged \<longrightarrow>
              configFile w' = Some (config\<lparr>lastKnownIp := Some ip, updatedAt := nowConfig en\<rparr>)
              \<and> list_ex isHistoryWrite (cycleEffects w w'))
        \<and> (\<not> ipChanged \<longrightarrow>
              w' = w\<lparr>isChecking := False, monitorStatus := Active,
                      effects := tr @ [CfRequest ''GET'' (listUrl en) None]\<rparr>
              \<and> \<not> list_ex isProviderWrite (cycleEffects w w')
              \<and> \<not> list_ex isHistoryWrite (cycleEffects w w'))
        \<and> (lastKnownIp config = Some ip
              \<and> (\<exists>found. readOutcome (dnsReadResp en) = Inr (Some found) \<and> content found = ip)
              \<longrightarrow> \<not> ipChanged)"
proof -
  have d: "getCurrentIp en (effects (beginCheck w)) = (Inr ip, tr)"
    using assms(1) by (simp add: detects_def)
  have h: "storageHealthy (beginCheck w) config history"
    using assms(2) by (simp add: storageHealthy_def)
  have cfg: "configFile (beginCheck w) = Some config"
    using assms(2) by (simp add: storageHealthy_def)
  obtain ev where ev: "tr = (effects w @ [ConsoleLog ''Checking IP address...'']) @ ev"
      "list_all isDetectionEvent ev"
    using getCurrentIp_trace [of en "effects (beginCheck w)"] d by auto
  have quiet_ev: "\<not> list_ex isProviderWrite ev" "\<not> list_ex isHistoryWrite ev"
    using ev(2)
    by (auto simp: list_all_iff list_ex_iff isDetectionEvent_def isProviderWrite_def isHistoryWrite_def
          split: event.splits)
  have nonempty: "ip \<noteq> []" using getCurrentIp_nonempty [OF d] .
  show ?thesis
  proof (cases "changed en config ip")
    case True
    let ?quiet = "isTestMode en (dnsReadAccessible en) \<or> writeSucceeds en"
    let ?h1 = "pushEntry (updateEntryFor en (dnsIp en) config ip (writeSucceeds en)) history"
    let ?h2 = "pushEntry (failureEntry en) ?h1"
    from finishCheck_changed [OF d h True]
    have r: "fst (performIpCheck en w) = (if ?quiet then Inr (True, ip) else Inl (Error ''DNS update failed: ''))"
      and cf: "configFile (snd (performIpCheck en w)) = Some (persistedIp en ip config)"
      and ef: "effects (snd (performIpCheck en w)) =
          (tr @ [CfRequest ''GET'' (listUrl en) None, ConfigWritten (persistedIp en ip config)]
             @ writeRequests en ip)
          @ (if ?quiet then [HistoryWritten ?h1] else [HistoryWritten ?h1, HistoryWritten ?h2])"
      by (simp_all add: performIpCheck_def Let_def)
    have "list_ex isHistoryWrite (cycleEffects w (snd (performIpCheck en w)))"
      unfolding cycleEffects_def ef ev(1) by (simp add: isHistoryWrite_def)
    moreover have "ipChangedExpr"
      if "ipChangedExpr = (lastKnownIp config \<noteq> Some ip \<or> (dnsReadAccessible en \<and> dnsIp en \<noteq> Some ip))"
      for ipChangedExpr
      using True that by (simp add: changed_def)
    ultimately show ?thesis
      using True r cf nonempty
      by (auto simp: Let_def changed_def persistedIp_def dnsIp_def dnsRecordIpOf_def dnsReadAccessible_def)
  next
    case False
    from finishCheck_unchanged [OF d cfg False]
    have p: "performIpCheck en w =
        (Inr (False, ip), w\<lparr>isChecking := False, monitorStatus := Active,
             effects := tr @ [CfRequest ''GET'' (listUrl en) None]\<rparr>)"
      by (simp add: performIpCheck_def beginCheck_def)
    have "cycleEffects w (snd (performIpCheck en w)) =
        ConsoleLog ''Checking IP address...'' # ev @ [CfRequest ''GET'' (listUrl en) None]"
      unfolding p cycleEffects_def ev(1) by simp
    then have "\<not> list_ex isProviderWrite (cycleEffects w (snd (performIpCheck en w)))"
        "\<not> list_ex isHistoryWrite (cycleEffects w (snd (performIpCheck en w)))"
      using quiet_ev by (simp_all add: isProviderWrite_def isHistoryWrite_def)
    then show ?thesis
      using False p nonempty
      by (auto simp: Let_def changed_def dnsIp_def dnsRecordIpOf_def dnsReadAccessible_def)
  qed
qed

text \<open>
  The three addresses agree on \<open>198.51.100.1\<close>: nothing is written; and they disagree
  when \<open>198.51.100.2\<close> is detected: the update is made.
\<close>

theorem cycle_updates_iff_changed_witness:
  "detects env_all_equal world0 ''198.51.100.1'' [ConsoleLog ''Checking IP address...'', HttpGet ipifyUrl]
   \<and> storageHealthy world0 config0 \<lparr>updates = []\<rparr>
   \<and> lastKnownIp config0 = Some ''198.51.100.1''
   \<and> readOutcome (dnsReadResp env_all_equal) = Inr (Some record0)
   \<and> content record0 = ''198.51.100.1''
   \<and> fst (performIpCheck env_all_equal world0) = Inr (False, ''198.51.100.1'')
   \<and> historyFile (snd (performIpCheck env_all_equal world0)) = Some \<lparr>updates = []\<rparr>
   \<and> monitorStatus (snd (performIpCheck env_all_equal world0)) = Active
   \<and> \<not> list_ex isProviderWrite (cycleEffects world0 (snd (performIpCheck env_all_equal world0)))
   \<and> \<not> list_ex isHistoryWrite (cycleEffects world0 (snd (performIpCheck env_all_equal world0)))
   \<and> detects env_ip_changes world0 ''198.51.100.2'' [ConsoleLog ''Checking IP address...'', HttpGet ipifyUrl]
   \<and> lastKnownIp config0 \<noteq> Some ''198.51.100.2''
   \<and> fst (performIpCheck env_ip_changes world0) = Inr (True, ''198.51.100.2'')
   \<and> list_ex isHistoryWrite (cycleEffects world0 (snd (performIpCheck env_ip_changes world0)))"
proof -
  note same = cycle_updates_iff_changed [OF env_all_equal_detects world0_healthy]
  have s0: "\<exists>found. readOutcome (dnsReadResp env_all_equal) = Inr (Some found) \<and> content found = ''198.51.100.1''"
    using env_all_equal_facts by blast
  from same config0_ip s0
  have s1: "\<not> (lastKnownIp config0 \<noteq> Some ''198.51.100.1''
        \<or> (dnsReadAccessible env_all_equal \<and> dnsIp env_all_equal \<noteq> Some ''198.51.100.1''))"
    unfolding Let_def by blast
  from same s1
  have s2: "(case fst (performIpCheck env_all_equal world0) of
               Inr (flag, current) \<Rightarrow> flag = False \<and> current = ''198.51.100.1''
             | Inl e \<Rightarrow> False)"
    and s3: "snd (performIpCheck env_all_equal world0) =
        world0\<lparr>isChecking := False, monitorStatus := Active,
          effects := [ConsoleLog ''Checking IP address...'', HttpGet ipifyUrl]
                     @ [CfRequest ''GET'' (listUrl env_all_equal) None]\<rparr>"
    and s4: "\<not> list_ex isProviderWrite (cycleEffects world0 (snd (performIpCheck env_all_equal world0)))"
       "\<not> list_ex isHistoryWrite (cycleEffects world0 (snd (performIpCheck env_all_equal world0)))"
    unfolding Let_def by (auto split: sum.splits)
  have s5: "fst (performIpCheck env_all_equal world0) = Inr (False, ''198.51.100.1'')"
    using s2 by (auto split: sum.splits)
  have s6: "historyFile (snd (performIpCheck env_all_equal world0)) = Some \<lparr>updates = []\<rparr>"
      "monitorStatus (snd (performIpCheck env_all_equal world0)) = Active"
    unfolding s3 by (simp_all add: world0_def)
  note diff = cycle_updates_iff_changed [OF env_ip_changes_detects world0_healthy]
  have n: "lastKnownIp config0 \<noteq> Some ''198.51.100.2''" by (simp add: config0_ip)
  from diff n
  have d1: "(case fst (performIpCheck env_ip_changes world0) of
               Inr (flag, current) \<Rightarrow> flag = True \<and> current = ''198.51.100.2''
             | Inl e \<Rightarrow> e = Error ''DNS update failed: '')"
    and d2: "list_ex isHistoryWrite (cycleEffects world0 (snd (performIpCheck env_ip_changes world0)))"
    unfolding Let_def by (auto split: sum.splits)
  have q: "fst (performIpCheck env_ip_changes world0) = Inr (True, ''198.51.100.2'')"
    using finishCheck_changed [of env_ip_changes "beginCheck world0" "''198.51.100.2''" _ config0 "\<lparr>updates = []\<rparr>"]
      env_ip_changes_detects world0_healthy n env_ip_changes_facts
    by (simp add: performIpCheck_def detects_def storageHealthy_def changed_def Let_def)
  show ?thesis
    using env_all_equal_detects world0_healthy config0_ip env_all_equal_facts s5 s6 s4
      env_ip_changes_detects n q d2
    by simp
qed

text \<open>
  C6. At the end of a changed cycle (storage readable and writable) the monitor is active
  if the provider write succeeded or the deployment is degraded, which the code recognises
  by an API token or zone id containing \<open>test_\<close> or by an inaccessible DNS read. Otherwise
  the write has failed under real credentials: the history holds the entry of the attempted
  change with status failed and \<open>dnsRecordUpdated\<close> false (below the entry that the
  \<open>catch\<close> block adds), the monitor is in error and the cycle throws
  \<open>DNS update failed\<close>. What \<open>updateDnsRecord\<close> returns depends on the answers of the
  provider only, so it is read off a call on the initial state.
\<close>

theorem changed_cycle_final_status:
  assumes "detects en w ip tr" and "storageHealthy w config history"
    and "lastKnownIp config \<noteq> Some ip \<or> (dnsReadAccessible en \<and> dnsIp en \<noteq> Some ip)"
  shows
    "let degraded = (opt_includes (CLOUDFLARE_API_TOKEN en) ''test_''
                      \<or> opt_includes (CLOUDFLARE_ZONE_ID en) ''test_''
                      \<or> \<not> dnsReadAccessible en);
         written = fst (updateDnsRecord en ip w);
         failedEntry = \<lparr>entryId = uuidUpdate en, timestamp = nowUpdate en,
                        oldIp = (case dnsIp en of Some d \<Rightarrow> Some d | None \<Rightarrow> lastKnownIp config),
                        newIp = ip, status = Failed, dnsRecordUpdated = False\<rparr>;
         r = fst (performIpCheck en w);
         w' = snd (performIpCheck en w)
     in (written \<or> degraded \<longrightarrow> monitorStatus w' = Active \<and> r = Inr (True, ip))
        \<and> (\<not> written \<and> \<not> degraded \<longrightarrow>
              monitorStatus w' = ErrorStatus
              \<and> r = Inl (Error ''DNS update failed: '')
              \<and> (\<exists>h'. historyFile w' = Some h'
                     \<and> updates h' = take 10 (failureEntry en # failedEntry # updates history)))"
proof -
  have d: "getCurrentIp en (effects (beginCheck w)) = (Inr ip, tr)"
    using assms(1) by (simp add: detects_def)
  have h: "storageHealthy (beginCheck w) config history"
    using assms(2) by (simp add: storageHealthy_def)
  have c: "changed en config ip" using assms(3) by (simp add: changed_def)
  let ?ok = "writeSucceeds en"
  let ?quiet = "isTestMode en (dnsReadAccessible en) \<or> ?ok"
  let ?h1 = "pushEntry (updateEntryFor en (dnsIp en) config ip ?ok) history"
  let ?h2 = "pushEntry (failureEntry en) ?h1"
  from finishCheck_changed [OF d h c]
  have r: "fst (performIpCheck en w) = (if ?quiet then Inr (True, ip) else Inl (Error ''DNS update failed: ''))"
    and st: "monitorStatus (snd (performIpCheck en w)) = (if ?quiet then Active else ErrorStatus)"
    and hf: "historyFile (snd (performIpCheck en w)) = Some (if ?quiet then ?h1 else ?h2)"
    by (simp_all add: performIpCheck_def Let_def)
  show ?thesis
    using r st hf
    by (auto simp: Let_def updateDnsRecord_eq isTestMode_def pushEntry_twice updateEntryFor_def)
qed

text \<open>A transport error on the PUT under real credentials.\<close>

theorem changed_cycle_final_status_witness:
  "detects env_write_fails world0 ''198.51.100.2'' [ConsoleLog ''Checking IP address...'', HttpGet ipifyUrl]
   \<and> storageHealthy world0 config0 \<lparr>updates = []\<rparr>
   \<and> lastKnownIp config0 \<noteq> Some ''198.51.100.2''
   \<and> \<not> fst (updateDnsRecord env_write_fails ''198.51.100.2'' world0)
   \<and> \<not> isTestMode env_write_fails (dnsReadAccessible env_write_fails)
   \<and> monitorStatus (snd (performIpCheck env_write_fails world0)) = ErrorStatus
   \<and> fst (performIpCheck env_write_fails world0) = Inl (Error ''DNS update failed: '')"
proof -
  have n: "lastKnownIp config0 \<noteq> Some ''198.51.100.2''" by (simp add: config0_ip)
  then have c: "lastKnownIp config0 \<noteq> Some ''198.51.100.2''
      \<or> (dnsReadAccessible env_write_fails \<and> dnsIp env_write_fails \<noteq> Some ''198.51.100.2'')"
    by simp
  have w: "\<not> fst (updateDnsRecord env_write_fails ''198.51.100.2'' world0)"
    by (simp add: updateDnsRecord_eq env_write_fails_facts)
  have t: "\<not> isTestMode env_write_fails (dnsReadAccessible env_write_fails)"
    using env_write_fails_facts by simp
  then have t': "\<not> (opt_includes (CLOUDFLARE_API_TOKEN env_write_fails) ''test_''
                      \<or> opt_includes (CLOUDFLARE_ZONE_ID env_write_fails) ''test_''
                      \<or> \<not> dnsReadAccessible env_write_fails)"
    by (simp add: isTestMode_def)
  from changed_cycle_final_status [OF env_write_fails_detects world0_healthy c] w t'
  have "monitorStatus (snd (performIpCheck env_write_fails world0)) = ErrorStatus
      \<and> fst (performIpCheck env_write_fails world0) = Inl (Error ''DNS update failed: '')"
    unfolding Let_def by blast
  with env_write_fails_detects world0_healthy n w t show ?thesis by simp
qed

text \<open>
  C2 fails on the code. A changed cycle whose provider write fails under real credentials
  stores its entry and then throws inside the \<open>try\<close> block, so the \<open>catch\<close> block of the
  same function stores a second entry, \<open>check_failed\<close>: one changed cycle, two entries.
\<close>

theorem write_failure_recorded_twice:
  "historyFile world0 = Some \<lparr>updates = []\<rparr>
   \<and> fst (performIpCheck env_write_fails world0) = Inl (Error ''DNS update failed: '')
   \<and> map newIp (updates (the (historyFile (snd (performIpCheck env_write_fails world0)))))
       = [''check_failed'', ''198.51.100.2'']
   \<and> map status (updates (the (historyFile (snd (performIpCheck env_write_fails world0)))))
       = [Failed, Failed]"
proof -
  have n: "changed env_write_fails config0 ''198.51.100.2''"
    by (simp add: changed_def config0_ip)
  have d: "getCurrentIp env_write_fails (effects (beginCheck world0)) =
      (Inr ''198.51.100.2'', [ConsoleLog ''Checking IP address...'', HttpGet ipifyUrl])"
    using env_write_fails_detects by (simp add: detects_def)
  have h: "storageHealthy (beginCheck world0) config0 \<lparr>updates = []\<rparr>"
    using world0_healthy by (simp add: storageHealthy_def)
  from finishCheck_changed [OF d h n] env_write_fails_facts
  have "fst (performIpCheck env_write_fails world0) = Inl (Error ''DNS update failed: '')"
    and "historyFile (snd (performIpCheck env_write_fails world0)) =
      Some (pushEntry (failureEntry env_write_fails)
             (pushEntry (updateEntryFor env_write_fails (dnsIp env_write_fails) config0 ''198.51.100.2'' False)
                \<lparr>updates = []\<rparr>))"
    by (simp_all add: performIpCheck_def Let_def)
  then show ?thesis
    by (simp add: pushEntry_def failureEntry_def updateEntryFor_def world0_def)
qed

section \<open>Claims about the provider write and the force-check guard\<close>

text \<open>
  C9. When its own lookup finds the record, \<open>updateDnsRecord\<close> sends exactly one PUT, to
  the URL of that record, whose body carries the type, name and ttl of the record found,
  its proxied flag (an absent flag is sent as false) and the new address as content; it
  never sends more than one PUT and changes nothing of the process state but the trace.
  It returns true exactly when the record was found and the provider answered the PUT with
  success: a transport error or a non-success answer, on the PUT or on the lookup, makes
  it return false, and no error leaves the function.
\<close>

theorem updateDnsRecord_preserves_fields:
  "(fst (getDnsRecord en (updReadResp en) w) = Inr (Some base) \<longrightarrow>
      effects (snd (updateDnsRecord en newIp' w)) =
        effects w @
          [CfRequest ''GET'' (listUrl en) None,
           CfRequest ''PUT'' (recordUrl en (recordId base))
             (Some \<lparr>p_type = rtype base, p_name = rname base, p_content = newIp',
                    p_ttl = ttl base, p_proxied = (proxied base = Some True)\<rparr>)])
   \<and> length (filter isProviderWrite (cycleEffects w (snd (updateDnsRecord en newIp' w)))) \<le> 1
   \<and> snd (updateDnsRecord en newIp' w) = w\<lparr>effects := effects (snd (updateDnsRecord en newIp' w))\<rparr>
   \<and> (fst (updateDnsRecord en newIp' w) \<longleftrightarrow>
        (\<exists>found response. fst (getDnsRecord en (updReadResp en) w) = Inr (Some found)
            \<and> updPutResp en = Inr response \<and> success response))
   \<and> (\<forall>e. updPutResp en = Inl e \<longrightarrow> \<not> fst (updateDnsRecord en newIp' w))
   \<and> (\<forall>response. updPutResp en = Inr response \<and> \<not> success response \<longrightarrow>
          \<not> fst (updateDnsRecord en newIp' w))
   \<and> (\<forall>e. updReadResp en = Inl e \<longrightarrow> \<not> fst (updateDnsRecord en newIp' w))
   \<and> (\<forall>response. updReadResp en = Inr response \<and> \<not> success response \<longrightarrow>
          \<not> fst (updateDnsRecord en newIp' w))"
proof -
  have p: "(case proxied base of Some b \<Rightarrow> b | None \<Rightarrow> False) = (proxied base = Some True)" for base
    by (cases "proxied base") auto
  have 1: "fst (getDnsRecord en (updReadResp en) w) = Inr (Some base) \<longrightarrow>
      effects (snd (updateDnsRecord en newIp' w)) =
        effects w @
          [CfRequest ''GET'' (listUrl en) None,
           CfRequest ''PUT'' (recordUrl en (recordId base))
             (Some \<lparr>p_type = rtype base, p_name = rname base, p_content = newIp',
                    p_ttl = ttl base, p_proxied = (proxied base = Some True)\<rparr>)]"
    by (simp add: getDnsRecord_eq updateDnsRecord_eq writeRequests_def payloadFor_def p)
  have 2: "length (filter isProviderWrite (cycleEffects w (snd (updateDnsRecord en newIp' w)))) \<le> 1"
    by (simp add: updateDnsRecord_eq cycleEffects_def writeRequests_def isProviderWrite_def
          split: sum.splits option.splits)
  have 3: "snd (updateDnsRecord en newIp' w) = w\<lparr>effects := effects (snd (updateDnsRecord en newIp' w))\<rparr>"
    by (simp add: updateDnsRecord_eq)
  have 4: "fst (updateDnsRecord en newIp' w) \<longleftrightarrow>
        (\<exists>found response. fst (getDnsRecord en (updReadResp en) w) = Inr (Some found)
            \<and> updPutResp en = Inr response \<and> success response)"
    by (auto simp: getDnsRecord_eq updateDnsRecord_eq writeSucceeds_def putAccepted_def
          split: sum.splits option.splits)
  have 5: "\<forall>response. updReadResp en = Inr response \<and> \<not> success response \<longrightarrow>
          (\<forall>found. readOutcome (updReadResp en) \<noteq> Inr (Some found))"
    by (auto simp: readOutcome_def)
  have 6: "\<forall>e. updReadResp en = Inl e \<longrightarrow> (\<forall>found. readOutcome (updReadResp en) \<noteq> Inr (Some found))"
    by (auto simp: readOutcome_def)
  show ?thesis
    using 1 2 3 4 5 6 by (auto simp: getDnsRecord_eq)
qed

text \<open>The record of the example is rewritten to \<open>198.51.100.2\<close>; a transport error on the PUT gives false.\<close>

theorem updateDnsRecord_preserves_fields_witness:
  "fst (getDnsRecord env_ip_changes (updReadResp env_ip_changes) world0) = Inr (Some record0)
   \<and> effects (snd (updateDnsRecord env_ip_changes ''198.51.100.2'' world0)) =
        [CfRequest ''GET'' (listUrl env_ip_changes) None,
         CfRequest ''PUT'' (recordUrl env_ip_changes ''rec-1'')
           (Some \<lparr>p_type = ''A'', p_name = ''home.example.com'', p_content = ''198.51.100.2'',
                  p_ttl = 300, p_proxied = True\<rparr>)]
   \<and> fst (updateDnsRecord env_ip_changes ''198.51.100.2'' world0)
   \<and> updPutResp env_write_fails = Inl (Error ''socket hang up'')
   \<and> \<not> fst (updateDnsRecord env_write_fails ''198.51.100.2'' world0)"
proof -
  have g: "fst (getDnsRecord env_ip_changes (updReadResp env_ip_changes) world0) = Inr (Some record0)"
    by (simp add: getDnsRecord_eq readOutcome_def env_ip_changes_def listing0_def)
  have a: "updPutResp env_ip_changes = Inr \<lparr>success = True, errors = [], result = None\<rparr>"
    by (simp add: env_ip_changes_def)
  have b: "updPutResp env_write_fails = Inl (Error ''socket hang up'')"
    by (simp add: env_write_fails_def)
  note t1 = updateDnsRecord_preserves_fields [of env_ip_changes world0 record0 "''198.51.100.2''"]
  note t2 = updateDnsRecord_preserves_fields [of env_write_fails world0 record0 "''198.51.100.2''"]
  have e: "effects (snd (updateDnsRecord env_ip_changes ''198.51.100.2'' world0)) =
        [CfRequest ''GET'' (listUrl env_ip_changes) None,
         CfRequest ''PUT'' (recordUrl env_ip_changes ''rec-1'')
           (Some \<lparr>p_type = ''A'', p_name = ''home.example.com'', p_content = ''198.51.100.2'',
                  p_ttl = 300, p_proxied = True\<rparr>)]"
    using t1 g by (simp add: record0_def world0_def)
  have s: "fst (updateDnsRecord env_ip_changes ''198.51.100.2'' world0)"
    using t1 g a by auto
  have f: "\<not> fst (updateDnsRecord env_write_fails ''198.51.100.2'' world0)"
    using t2 b by blast
  show ?thesis using g e s b f by simp
qed

text \<open>
  The guard of \<open>forceCheck\<close>. In every state in which the flag \<open>isChecking\<close> is set,
  \<open>forceCheck\<close> returns at once the result \<open>Check already in progress\<close> and leaves the
  state as it was: no cycle is started, nothing is requested and nothing is queued.
\<close>

theorem forceCheck_rejected_while_checking:
  assumes "isChecking w"
  shows "forceCheck en w =
           (\<lparr>fc_success = False, fc_ipChanged = False, fc_currentIp = None,
             fc_message = ''Check already in progress''\<rparr>, w)
         \<and> step ForceCheck w = Some w"
  using assms by (simp add: forceCheck_def inProgress_def)

text \<open>A cycle started by the timer sets the flag; a force-check in that state is rejected.\<close>

theorem forceCheck_rejected_while_checking_witness:
  "isChecking (launch FromTimer world0)
   \<and> inflight (launch FromTimer world0) = [FromTimer]
   \<and> fc_message (fst (forceCheck env_ip_changes (launch FromTimer world0))) = ''Check already in progress''
   \<and> snd (forceCheck env_ip_changes (launch FromTimer world0)) = launch FromTimer world0
   \<and> step ForceCheck (launch FromTimer world0) = Some (launch FromTimer world0)"
proof -
  have c: "isChecking (launch FromTimer world0)" by (simp add: launch_def Let_def)
  have i: "inflight (launch FromTimer world0) = [FromTimer]"
    by (simp add: launch_def Let_def world0_def)
  from forceCheck_rejected_while_checking [OF c, of env_ip_changes] c i show ?thesis by simp
qed

lemma launch_fields:
  "inflight (launch f w) = inflight w @ [f]" "isChecking (launch f w)"
  "configFile (launch f w) = configFile w" "timers (launch f w) = timers w"
  "nextHandle (launch f w) = nextHandle w"
  by (simp_all add: launch_def beginCheck_def Let_def)

lemma clearTimeout_fields:
  "inflight (clearTimeout h w) = inflight w" "isChecking (clearTimeout h w) = isChecking w"
  "configFile (clearTimeout h w) = configFile w" "nextHandle (clearTimeout h w) = nextHandle w"
  "timers (clearTimeout h w) = filter (\<lambda>t. fst t \<noteq> h) (timers w)"
  by (simp_all add: clearTimeout_def)

lemma step_Settles_all_equal:
  assumes "i < length (inflight w)" and "configFile w = Some config0"
  shows "\<exists>w'. step (Settles i env_all_equal) w = Some w'
      \<and> \<not> isChecking w' \<and> inflight w' = removeAt i (inflight w)
      \<and> configFile w' = Some config0
      \<and> timers w' = (if inflight w ! i = FromForce then timers w
                     else timers w @ [(nextHandle w, 300000)])"
proof -
  define w0 where "w0 = w\<lparr>inflight := removeAt i (inflight w)\<rparr>"
  have c: "configFile w0 = Some config0" using assms(2) by (simp add: w0_def)
  define w1 where "w1 = w0\<lparr>isChecking := False, monitorStatus := Active,
        effects := (effects w0 @ [HttpGet ipifyUrl]) @ [CfRequest ''GET'' (listUrl env_all_equal) None]\<rparr>"
  have f: "finishCheck env_all_equal (w\<lparr>inflight := removeAt i (inflight w)\<rparr>) =
      (Inr (False, ''198.51.100.1''), w1)"
    unfolding w1_def w0_def [symmetric]
    by (rule finishCheck_unchanged [OF env_all_equal_answers c env_all_equal_unchanged])
  have w1: "configFile w1 = Some config0" "timers w1 = timers w" "nextHandle w1 = nextHandle w"
      "inflight w1 = removeAt i (inflight w)" "\<not> isChecking w1"
    by (simp_all add: w1_def w0_def assms(2))
  have s: "step (Settles i env_all_equal) w =
      Some (if inflight w ! i = FromForce then w1 else afterCheck (Inr (False, ''198.51.100.1'')) w1)"
    unfolding step.simps f using assms(1) by simp
  show ?thesis
    unfolding s
    by (simp add: w1 afterCheck_schedules [OF w1(1)] timeoutDelay_def config0_def)
qed

text \<open>
  C3 fails on the code. The flag is set whenever a cycle starts and cleared whenever a cycle
  ends, and only \<open>forceCheck\<close> tests it: the timer callback starts its cycle whatever the
  flag says. So the flag does not tell whether a cycle is running. After the first cycle
  has armed the timer, a forced cycle starts, the timer fires while it is suspended, and
  the forced cycle settles first and clears the flag. The cycle of the timer is still
  running; \<open>forceCheck\<close>, called now, is not answered \<open>Check already in progress\<close>: it
  starts a second cycle beside the first.
\<close>

theorem forceCheck_starts_second_cycle:
  "map_option inflight
     (run [Start, Settles 0 env_all_equal, ForceCheck, TimerFires 0, Settles 0 env_all_equal] world0)
     = Some [FromTimer]
   \<and> map_option isChecking
     (run [Start, Settles 0 env_all_equal, ForceCheck, TimerFires 0, Settles 0 env_all_equal] world0)
     = Some False
   \<and> map_option (\<lambda>w. fc_message (fst (forceCheck env_all_equal w)))
     (run [Start, Settles 0 env_all_equal, ForceCheck, TimerFires 0, Settles 0 env_all_equal] world0)
     = Some ''No change detected''
   \<and> map_option inflight
     (run [Start, Settles 0 env_all_equal, ForceCheck, TimerFires 0, Settles 0 env_all_equal,
           ForceCheck] world0)
     = Some [FromTimer, FromForce]"
proof -
  define w1 where "w1 = launch FromStart world0"
  have w1: "inflight w1 = [FromStart]" "configFile w1 = Some config0" "timers w1 = []"
      "nextHandle w1 = 0"
    by (simp_all add: w1_def launch_fields world0_def)
  from step_Settles_all_equal [of 0 w1] w1
  obtain w2 where w2: "step (Settles 0 env_all_equal) w1 = Some w2" "\<not> isChecking w2"
      "inflight w2 = []" "configFile w2 = Some config0" "timers w2 = [(0, 300000)]"
    by (auto simp: removeAt_def)
  define w4 where "w4 = launch FromTimer (clearTimeout 0 (launch FromForce w2))"
  have w4: "inflight w4 = [FromForce, FromTimer]" "configFile w4 = Some config0"
    by (simp_all add: w4_def launch_fields clearTimeout_fields w2)
  have s4: "run [ForceCheck, TimerFires 0] w2 = Some w4"
    using w2(2) by (simp add: w4_def launch_fields w2(5))
  from step_Settles_all_equal [of 0 w4] w4
  obtain w5 where w5: "step (Settles 0 env_all_equal) w4 = Some w5" "\<not> isChecking w5"
      "inflight w5 = [FromTimer]" "configFile w5 = Some config0"
    by (auto simp: removeAt_def)
  have r: "run [Start, Settles 0 env_all_equal, ForceCheck, TimerFires 0, Settles 0 env_all_equal]
      world0 = Some w5"
    using w2(1) s4 w5(1) w2(2) by (simp add: w1_def [symmetric] w4_def launch_fields w2(5))
  have r': "run [Start, Settles 0 env_all_equal, ForceCheck, TimerFires 0, Settles 0 env_all_equal,
      ForceCheck] world0 = Some (launch FromForce w5)"
    using w2(1) s4 w5(1) w2(2) w5(2)
    by (simp add: w1_def [symmetric] w4_def launch_fields w2(5))
  have c: "configFile (beginCheck w5) = Some config0" by (simp add: beginCheck_def w5)
  have m: "fc_message (fst (forceCheck env_all_equal w5)) = ''No change detected''"
    using w5(2)
    by (simp add: forceCheck_def performIpCheck_def forceResult_def
          finishCheck_unchanged [OF env_all_equal_answers c env_all_equal_unchanged])
  show ?thesis unfolding r r' by (simp add: w5 m launch_fields)
qed

text \<open>
  C10. When the flag is not set, \<open>forceCheck\<close> runs one cycle and always returns a result:
  the outcome of the cycle when it succeeds, and otherwise, whichever error the cycle
  throws (detection, reading or writing a file, the provider write under real credentials),
  the result with \<open>success\<close> and \<open>ipChanged\<close> false, no address and the message
  \<open>Check failed: Error: ...\<close>. The flag is cleared on both paths, so the next
  \<open>forceCheck\<close> is not answered with \<open>Check already in progress\<close>; nor is any later one
  that is issued, after any turns of the event loop, while no cycle is suspended.
\<close>

theorem forceCheck_total:
  assumes "\<not> isChecking w"
  shows
    "let r = fst (performIpCheck en w);
         answer = fst (forceCheck en w);
         w' = snd (forceCheck en w)
     in \<not> isChecking w'
        \<and> (case r of
              Inr (ipChanged, currentIp) \<Rightarrow>
                answer = \<lparr>fc_success = True, fc_ipChanged = ipChanged, fc_currentIp = Some currentIp,
                          fc_message = (if ipChanged then ''IP address updated'' else ''No change detected'')\<rparr>
            | Inl (Error m) \<Rightarrow>
                m \<in> cycleErrors
                \<and> answer = \<lparr>fc_success = False, fc_ipChanged = False, fc_currentIp = None,
                            fc_message = ''Check failed: Error: '' @ m\<rparr>)
        \<and> fc_message (fst (forceCheck en' w')) \<noteq> ''Check already in progress''
        \<and> (\<forall>acts w''. run acts w = Some w'' \<and> inflight w'' = [] \<longrightarrow>
              fc_message (fst (forceCheck en' w'')) \<noteq> ''Check already in progress'')"
proof -
  obtain r w1 where p: "performIpCheck en w = (r, w1)" by force
  have f: "forceCheck en w = (forceResult r, w1)"
    using assms p by (simp add: forceCheck_def)
  have c: "\<not> isChecking w1" using performIpCheck_clears_flag [of en w] p by simp
  have n: "fc_message (fst (forceCheck en' w1)) \<noteq> ''Check already in progress''"
    using forceCheck_accepted [OF c] .
  have m: "(case r of
              Inr (ipChanged, currentIp) \<Rightarrow>
                forceResult r = \<lparr>fc_success = True, fc_ipChanged = ipChanged, fc_currentIp = Some currentIp,
                          fc_message = (if ipChanged then ''IP address updated'' else ''No change detected'')\<rparr>
            | Inl (Error m) \<Rightarrow>
                m \<in> cycleErrors
                \<and> forceResult r = \<lparr>fc_success = False, fc_ipChanged = False, fc_currentIp = None,
                            fc_message = ''Check failed: Error: '' @ m\<rparr>)"
  proof (cases r)
    case (Inr v)
    then show ?thesis by (cases v) (simp add: forceResult_def)
  next
    case (Inl e)
    then have "e \<in> Error ` cycleErrors" using performIpCheck_error [of en w e] p by simp
    with Inl show ?thesis by (cases e) (auto simp: forceResult_def)
  qed
  have l: "\<forall>acts w''. run acts w = Some w'' \<and> inflight w'' = [] \<longrightarrow>
              fc_message (fst (forceCheck en' w'')) \<noteq> ''Check already in progress''"
  proof (intro allI impI)
    fix acts w'' assume a: "run acts w = Some w'' \<and> inflight w'' = []"
    have "inflight w = [] \<longrightarrow> \<not> isChecking w" using assms by simp
    from run_idle_unchecked [OF this, of acts w''] a have "\<not> isChecking w''" by simp
    then show "fc_message (fst (forceCheck en' w'')) \<noteq> ''Check already in progress''"
      by (rule forceCheck_accepted)
  qed
  show ?thesis using p f c n m l by (simp add: Let_def)
qed

text \<open>A forced check while every IP source is down, followed by another forced check.\<close>

theorem forceCheck_total_witness:
  "\<not> isChecking world0
   \<and> fst (performIpCheck env_all_down world0) = Inl (Error ''Failed to detect IP address'')
   \<and> fst (forceCheck env_all_down world0) =
       \<lparr>fc_success = False, fc_ipChanged = False, fc_currentIp = None,
        fc_message = ''Check failed: Error: Failed to detect IP address''\<rparr>
   \<and> \<not> isChecking (snd (forceCheck env_all_down world0))
   \<and> fc_message (fst (forceCheck env_ip_changes (snd (forceCheck env_all_down world0))))
        \<noteq> ''Check already in progress''
   \<and> run [] world0 = Some world0 \<and> inflight world0 = []
   \<and> fc_message (fst (forceCheck env_ip_changes world0)) \<noteq> ''Check already in progress''"
proof -
  have i: "\<not> isChecking world0" "inflight world0 = []" by (simp_all add: world0_def)
  have p: "fst (performIpCheck env_all_down world0) = Inl (Error ''Failed to detect IP address'')"
    by (simp add: performIpCheck_def finishCheck_undetected [OF env_all_down_fails])
  note t = forceCheck_total [OF i(1), of env_all_down env_ip_changes]
  from t p
  have 1: "fst (forceCheck env_all_down world0) =
       \<lparr>fc_success = False, fc_ipChanged = False, fc_currentIp = None,
        fc_message = ''Check failed: Error: Failed to detect IP address''\<rparr>
     \<and> \<not> isChecking (snd (forceCheck env_all_down world0))
     \<and> fc_message (fst (forceCheck env_ip_changes (snd (forceCheck env_all_down world0))))
        \<noteq> ''Check already in progress''"
    by (simp add: Let_def)
  have r: "run [] world0 = Some world0" by simp
  from t have "\<forall>acts w''. run acts world0 = Some w'' \<and> inflight w'' = [] \<longrightarrow>
              fc_message (fst (forceCheck env_ip_changes w'')) \<noteq> ''Check already in progress''"
    unfolding Let_def by blast
  with r i(2) have 2: "fc_message (fst (forceCheck env_ip_changes world0)) \<noteq> ''Check already in progress''"
    by blast
  show ?thesis using i p 1 2 by simp
qed

section \<open>Scheduling\<close>

lemma keepsSchedule_refl [simp]: "keepsSchedule w w"
  by (simp add: keepsSchedule_def)

lemma keepsSchedule_trans: "keepsSchedule w w1 \<Longrightarrow> keepsSchedule w1 w2 \<Longrightarrow> keepsSchedule w w2"
  by (simp add: keepsSchedule_def)

lemma keepsSchedule_updates [simp]:
  "keepsSchedule w (w\<lparr>effects := tr\<rparr>)"
  "keepsSchedule w (w\<lparr>monitorStatus := s\<rparr>)"
  "keepsSchedule w (w\<lparr>isChecking := b\<rparr>)"
  by (simp_all add: keepsSchedule_def)

lemma addUpdateEntry_keeps: "addUpdateEntry entry w = Inr w' \<Longrightarrow> keepsSchedule w w'"
  by (auto simp: addUpdateEntry_def readHistory_def writeHistory_def Let_def keepsSchedule_def
        split: option.splits if_splits)

lemma updateLastKnownIp_keeps: "updateLastKnownIp now ip w = Inr w' \<Longrightarrow> keepsSchedule w w'"
  by (auto simp: updateLastKnownIp_def readConfig_def writeConfig_def Let_def keepsSchedule_def
        split: option.splits if_splits)

lemma updateDnsRecord_keeps: "keepsSchedule w (snd (updateDnsRecord en ip w))"
  by (simp add: updateDnsRecord_eq)

lemma changedBranch_keeps: "keepsSchedule w (snd (changedBranch en config d acc ip w))"
proof (cases "updateLastKnownIp (nowConfig en) ip w")
  case (Inl e)
  then show ?thesis by (simp add: changedBranch_def)
next
  case (Inr w1)
  note k1 = updateLastKnownIp_keeps [OF Inr]
  obtain ok w2 where u: "updateDnsRecord en ip w1 = (ok, w2)" by force
  have k2: "keepsSchedule w w2"
    using keepsSchedule_trans [OF k1 updateDnsRecord_keeps [of w1 en ip]] u by simp
  show ?thesis
  proof (cases "addUpdateEntry (updateEntryFor en d config ip ok) w2")
    case (Inl e)
    with Inr u k2 show ?thesis by (simp add: changedBranch_def)
  next
    case (Inr w3)
    have k3: "keepsSchedule w w3" using keepsSchedule_trans [OF k2 addUpdateEntry_keeps [OF Inr]] .
    have "keepsSchedule w (w3\<lparr>monitorStatus := s\<rparr>)" for s
      using keepsSchedule_trans [OF k3 keepsSchedule_updates(2)] .
    with \<open>updateLastKnownIp (nowConfig en) ip w = Inr w1\<close> u Inr show ?thesis
      by (simp add: changedBranch_def)
  qed
qed

lemma catchBlock_keeps: "keepsSchedule w (catchBlock en w)"
proof (cases "addUpdateEntry (failureEntry en) (w\<lparr>monitorStatus := ErrorStatus\<rparr>)")
  case (Inl e)
  then show ?thesis by (simp add: catchBlock_def Let_def)
next
  case (Inr w2)
  then show ?thesis
    using keepsSchedule_trans [OF keepsSchedule_updates(2) addUpdateEntry_keeps [OF Inr]]
    by (simp add: catchBlock_def Let_def)
qed

lemma tryBlock_keeps: "keepsSchedule w (snd (tryBlock en w))"
proof (cases "getCurrentIp en (effects w)")
  case (Pair r tr)
  show ?thesis
  proof (cases r)
    case (Inl e)
    with Pair show ?thesis by (simp add: tryBlock_def)
  next
    case (Inr ip)
    show ?thesis
    proof (cases "configFile w")
      case None
      with Pair Inr show ?thesis by (simp add: tryBlock_def readConfig_def)
    next
      case (Some config)
      let ?w2 = "w\<lparr>effects := tr @ [CfRequest ''GET'' (listUrl en) None]\<rparr>"
      have a: "keepsSchedule w (snd (changedBranch en config (dnsIp en) (dnsReadAccessible en) ip ?w2))"
        using keepsSchedule_trans [OF keepsSchedule_updates(1) changedBranch_keeps] .
      have b: "keepsSchedule w (?w2\<lparr>monitorStatus := Active\<rparr>)"
        by (simp add: keepsSchedule_def)
      from Pair Inr Some a b show ?thesis
        by (simp add: tryBlock_detected [of en w ip tr config] Let_def)
    qed
  qed
qed

lemma finishCheck_keeps: "keepsSchedule w (snd (finishCheck en w))"
proof (cases "tryBlock en w")
  case (Pair r w1)
  have k: "keepsSchedule w w1" using tryBlock_keeps [of w en] Pair by simp
  show ?thesis
  proof (cases r)
    case (Inr v)
    with Pair show ?thesis
      using keepsSchedule_trans [OF k keepsSchedule_updates(3)] by (simp add: finishCheck_def)
  next
    case (Inl e)
    with Pair show ?thesis
      using keepsSchedule_trans [OF keepsSchedule_trans [OF k catchBlock_keeps] keepsSchedule_updates(3)]
      by (simp add: finishCheck_def)
  qed
qed

text \<open>
  C7. When a cycle started by \<open>start\<close> or by the timer settles, however it ends, and the
  configuration is readable with an interval of 1 to 60 minutes, the monitor arms one new
  timer whose delay is that interval in milliseconds: the interval is the one in the
  configuration file at that moment, which the cycle itself never changes.
\<close>

theorem next_check_uses_current_interval:
  assumes "i < length (inflight w)" and "inflight w ! i \<noteq> FromForce"
    and "configFile w = Some config"
    and "1 \<le> checkIntervalMinutes config" and "checkIntervalMinutes config \<le> 60"
  shows "\<exists>w'. step (Settles i en) w = Some w'
           \<and> interval w' = Some (nextHandle w)
           \<and> timers w' = timers w @ [(nextHandle w, checkIntervalMinutes config * 60 * 1000)]
           \<and> map_option checkIntervalMinutes (configFile w') = Some (checkIntervalMinutes config)"
proof -
  let ?w0 = "w\<lparr>inflight := removeAt i (inflight w)\<rparr>"
  obtain r w1 where f: "finishCheck en ?w0 = (r, w1)" by force
  have k: "keepsSchedule ?w0 w1" using finishCheck_keeps [of ?w0 en] f by simp
  then obtain c1 where c1: "configFile w1 = Some c1" "checkIntervalMinutes c1 = checkIntervalMinutes config"
    using assms(3) by (auto simp: keepsSchedule_def)
  have d: "timeoutDelay (checkIntervalMinutes config * 60 * 1000) = checkIntervalMinutes config * 60 * 1000"
    using assms(4,5) by (simp add: timeoutDelay_def)
  have "step (Settles i en) w = Some (afterCheck r w1)"
    using assms(1,2) f by simp
  then show ?thesis
    using k c1 d by (simp add: afterCheck_schedules [OF c1(1)] keepsSchedule_def)
qed

text \<open>
  The interval was 5 minutes at the start and is 17 when the first cycle settles: the
  timer is armed for 1020000 ms, after a failed cycle as after a successful one.
\<close>

theorem next_check_uses_current_interval_witness:
  "0 < length (inflight world_retimed)
   \<and> inflight world_retimed ! 0 \<noteq> FromForce
   \<and> configFile world0 = Some config0 \<and> checkIntervalMinutes config0 = 5
   \<and> configFile world_retimed = Some (config0\<lparr>checkIntervalMinutes := 17\<rparr>)
   \<and> (1::int) \<le> 17 \<and> (17::int) \<le> 60
   \<and> map_option timers (step (Settles 0 env_all_down) world_retimed) = Some [(0, 1020000)]
   \<and> map_option interval (step (Settles 0 env_all_down) world_retimed) = Some (Some 0)
   \<and> map_option timers (step (Settles 0 env_ip_changes) world_retimed) = Some [(0, 1020000)]"
proof -
  have a: "0 < length (inflight world_retimed)" "inflight world_retimed ! 0 \<noteq> FromForce"
    "configFile world_retimed = Some (config0\<lparr>checkIntervalMinutes := 17\<rparr>)"
    "nextHandle world_retimed = 0" "timers world_retimed = []"
    by (simp_all add: world_retimed_def launch_def Let_def world0_def)
  have b: "configFile world0 = Some config0" "checkIntervalMinutes config0 = 5"
    by (simp_all add: world0_def config0_def)
  have c: "1 \<le> checkIntervalMinutes (config0\<lparr>checkIntervalMinutes := 17\<rparr>)"
    "checkIntervalMinutes (config0\<lparr>checkIntervalMinutes := 17\<rparr>) \<le> 60"
    by simp_all
  from next_check_uses_current_interval [OF a(1,2,3) c, of env_all_down]
  have 1: "map_option timers (step (Settles 0 env_all_down) world_retimed) = Some [(0, 1020000)]"
    "map_option interval (step (Settles 0 env_all_down) world_retimed) = Some (Some 0)"
    using a(4,5) by auto
  from next_check_uses_current_interval [OF a(1,2,3) c, of env_ip_changes]
  have 2: "map_option timers (step (Settles 0 env_ip_changes) world_retimed) = Some [(0, 1020000)]"
    using a(4,5) by auto
  show ?thesis using a(1,2,3) b 1 2 by simp
qed

text \<open>
  C8 fails on the code. \<open>stop\<close> only clears the timer whose handle is in \<open>interval\<close>.
  Called while the first cycle is suspended, it finds no handle and cancels nothing; when
  the cycle settles its handler arms a timer all the same, the timer fires, and a second
  cycle starts after the monitor has printed that it is stopped.
\<close>

theorem stop_during_cycle_does_not_stop:
  "map_option inflight (run [Start, Stop, Settles 0 env_all_equal, TimerFires 0] world0) = Some [FromTimer]
   \<and> map_option isChecking (run [Start, Stop, Settles 0 env_all_equal, TimerFires 0] world0) = Some True
   \<and> map_option (\<lambda>w. filter isConsoleLog (effects w))
        (run [Start, Stop, Settles 0 env_all_equal, TimerFires 0] world0) =
       Some [ConsoleLog ''Checking IP address...'', ConsoleLog ''IP monitoring stopped'',
             ConsoleLog ''Checking IP address...'']"
proof -
  define w2 where "w2 = stop (launch FromStart world0)"
  have w2: "configFile w2 = Some config0" "inflight w2 = [FromStart]" "timers w2 = []"
      "nextHandle w2 = 0"
      "effects w2 = [ConsoleLog ''Checking IP address...'', ConsoleLog ''IP monitoring stopped'']"
    by (simp_all add: w2_def launch_def beginCheck_def stop_def Let_def world0_def)
  define w2' where "w2' = w2\<lparr>inflight := removeAt 0 (inflight w2)\<rparr>"
  have c: "configFile w2' = Some config0" by (simp add: w2'_def w2)
  define w3 where "w3 = w2'\<lparr>isChecking := False, monitorStatus := Active,
        effects := (effects w2' @ [HttpGet ipifyUrl]) @ [CfRequest ''GET'' (listUrl env_all_equal) None]\<rparr>"
  have f: "finishCheck env_all_equal w2' = (Inr (False, ''198.51.100.1''), w3)"
    unfolding w3_def by (rule finishCheck_unchanged [OF env_all_equal_answers c env_all_equal_unchanged])
  have w3: "configFile w3 = Some config0" "timers w3 = []" "nextHandle w3 = 0" "inflight w3 = []"
      "filter isConsoleLog (effects w3) =
        [ConsoleLog ''Checking IP address...'', ConsoleLog ''IP monitoring stopped'']"
    by (simp_all add: w3_def w2'_def w2 removeAt_def isConsoleLog_def)
  define w4 where "w4 = afterCheck (Inr (False, ''198.51.100.1'')) w3"
  have f': "finishCheck env_all_equal (w2\<lparr>inflight := removeAt 0 (inflight w2)\<rparr>) =
      (Inr (False, ''198.51.100.1''), w3)"
    using f by (simp add: w2'_def)
  have s3: "step (Settles 0 env_all_equal) w2 = Some w4"
    unfolding step.simps f' by (simp add: w2 w4_def)
  have w4: "timers w4 = [(0, 300000)]" "inflight w4 = []"
      "filter isConsoleLog (effects w4) =
        [ConsoleLog ''Checking IP address...'', ConsoleLog ''IP monitoring stopped'']"
    by (simp_all add: w4_def afterCheck_schedules [OF w3(1)] w3 timeoutDelay_def config0_def)
  have r: "run [Start, Stop, Settles 0 env_all_equal, TimerFires 0] world0 =
      Some (launch FromTimer (clearTimeout 0 w4))"
    using s3 w4(1) by (simp add: w2_def [symmetric])
  show ?thesis
    unfolding r using w4
    by (simp add: launch_def beginCheck_def clearTimeout_def Let_def isConsoleLog_def)
qed

section \<open>Further properties of the monitor\<close>

lemma addUpdateEntry_Inr:
  assumes "addUpdateEntry entry w = Inr w'"
  shows "\<exists>h. historyFile w = Some h
           \<and> w' = w\<lparr>historyFile := Some (pushEntry entry h),
                    effects := effects w @ [HistoryWritten (pushEntry entry h)]\<rparr>"
  using assms
  by (auto simp: addUpdateEntry_def readHistory_def writeHistory_def pushEntry_def Let_def
        split: option.splits if_splits)

lemma updateLastKnownIp_history: "updateLastKnownIp now ip w = Inr w' \<Longrightarrow> historyFile w' = historyFile w"
  by (auto simp: updateLastKnownIp_def readConfig_def writeConfig_def Let_def
        split: option.splits if_splits)

lemma changedBranch_history:
  "historyFile (snd (changedBranch en config d acc ip w)) = historyFile w
   \<or> (\<exists>h e1. historyFile w = Some h
         \<and> historyFile (snd (changedBranch en config d acc ip w)) = Some (pushEntry e1 h))"
proof (cases "updateLastKnownIp (nowConfig en) ip w")
  case (Inl e)
  then show ?thesis by (simp add: changedBranch_def)
next
  case (Inr w1)
  note h1 = updateLastKnownIp_history [OF Inr]
  obtain ok w2 where u: "updateDnsRecord en ip w1 = (ok, w2)" by force
  have h2: "historyFile w2 = historyFile w"
    using u h1 by (auto simp: updateDnsRecord_eq)
  show ?thesis
  proof (cases "addUpdateEntry (updateEntryFor en d config ip ok) w2")
    case (Inl e)
    with Inr u h2 show ?thesis by (simp add: changedBranch_def)
  next
    case (Inr w3)
    from addUpdateEntry_Inr [OF Inr] h2 obtain h where
      "historyFile w = Some h" "historyFile w3 = Some (pushEntry (updateEntryFor en d config ip ok) h)"
      by auto
    with \<open>updateLastKnownIp (nowConfig en) ip w = Inr w1\<close> u Inr show ?thesis
      by (auto simp: changedBranch_def)
  qed
qed

lemma tryBlock_history:
  "historyFile (snd (tryBlock en w)) = historyFile w
   \<or> (\<exists>h e1. historyFile w = Some h \<and> historyFile (snd (tryBlock en w)) = Some (pushEntry e1 h))"
proof (cases "getCurrentIp en (effects w)")
  case (Pair r tr)
  show ?thesis
  proof (cases r)
    case (Inl e)
    with Pair show ?thesis by (simp add: tryBlock_def)
  next
    case (Inr ip)
    show ?thesis
    proof (cases "configFile w")
      case None
      with Pair Inr show ?thesis by (simp add: tryBlock_def readConfig_def)
    next
      case (Some config)
      let ?w2 = "w\<lparr>effects := tr @ [CfRequest ''GET'' (listUrl en) None]\<rparr>"
      from Pair Inr Some changedBranch_history [of en config "dnsIp en" "dnsReadAccessible en" ip ?w2]
      show ?thesis
        by (simp add: tryBlock_detected [of en w ip tr config] Let_def)
    qed
  qed
qed

lemma catchBlock_history:
  "historyFile (catchBlock en w) = historyFile w
   \<or> (\<exists>h. historyFile w = Some h \<and> historyFile (catchBlock en w) = Some (pushEntry (failureEntry en) h))"
proof (cases "addUpdateEntry (failureEntry en) (w\<lparr>monitorStatus := ErrorStatus\<rparr>)")
  case (Inl e)
  then show ?thesis by (simp add: catchBlock_def Let_def)
next
  case (Inr w2)
  from addUpdateEntry_Inr [OF Inr] Inr show ?thesis
    by (auto simp: catchBlock_def Let_def)
qed

lemma finishCheck_history: "historyStep w (snd (finishCheck en w))"
proof (cases "tryBlock en w")
  case (Pair r w1)
  from tryBlock_history [of en w] Pair
  consider (same) "historyFile w1 = historyFile w"
    | (one) h e1 where "historyFile w = Some h" "historyFile w1 = Some (pushEntry e1 h)"
    by auto
  note t = this
  show ?thesis
  proof (cases r)
    case (Inr v)
    then have f: "historyFile (snd (finishCheck en w)) = historyFile w1"
      using Pair by (simp add: finishCheck_def)
    from t show ?thesis
      unfolding historyStep_def f by cases auto
  next
    case (Inl e)
    then have f: "historyFile (snd (finishCheck en w)) = historyFile (catchBlock en w1)"
      using Pair by (simp add: finishCheck_def)
    from catchBlock_history [of en w1]
    consider (kept) "historyFile (catchBlock en w1) = historyFile w1"
      | (pushed) h1 where "historyFile w1 = Some h1"
          "historyFile (catchBlock en w1) = Some (pushEntry (failureEntry en) h1)"
      by auto
    then show ?thesis
    proof cases
      case kept
      from t show ?thesis
        unfolding historyStep_def f kept by cases auto
    next
      case pushed
      from t show ?thesis
      proof cases
        case same
        with pushed show ?thesis
          unfolding historyStep_def f by auto
      next
        case one
        with pushed have "historyFile (catchBlock en w1) = Some (pushEntry (failureEntry en) (pushEntry e1 h))"
          by simp
        with one(1) show ?thesis
          unfolding historyStep_def f by blast
      qed
    qed
  qed
qed

lemma historyStep_bounded:
  assumes "historyStep w w'" and "historyBounded w"
  shows "historyBounded w'"
  using assms by (auto simp: historyStep_def historyBounded_def pushEntry_def split: option.splits)

lemma afterCheck_history: "historyFile (afterCheck r w) = historyFile w"
  by (cases r) (auto simp: afterCheck_def scheduleNextCheck_def Let_def split: sum.splits)

lemma step_bounded:
  assumes "historyBounded w" and "step a w = Some w'"
  shows "historyBounded w'"
proof (cases a)
  case Start
  with assms show ?thesis by (auto simp: launch_def Let_def historyBounded_def)
next
  case Stop
  with assms show ?thesis
    by (auto simp: stop_def clearTimeout_def Let_def historyBounded_def split: option.splits)
next
  case ForceCheck
  with assms show ?thesis by (auto simp: launch_def Let_def historyBounded_def split: if_splits)
next
  case (TimerFires h)
  with assms show ?thesis
    by (auto simp: launch_def clearTimeout_def Let_def historyBounded_def split: if_splits)
next
  case (Settles i en)
  let ?w0 = "w\<lparr>inflight := removeAt i (inflight w)\<rparr>"
  obtain r w1 where f: "finishCheck en ?w0 = (r, w1)" by force
  have "historyBounded ?w0" using assms(1) by (simp add: historyBounded_def)
  then have b: "historyBounded w1"
    using historyStep_bounded [OF finishCheck_history [of ?w0 en]] f by simp
  then have "historyBounded (afterCheck r w1)"
    by (simp add: historyBounded_def afterCheck_history)
  with Settles assms(2) f b show ?thesis by (auto split: if_splits)
qed

text \<open>
  The history is an append-and-trim log: a cycle leaves the file as it is or puts one or
  two new entries in front of the old ones and keeps the first ten; so a history of at
  most ten entries stays so through any turns of the event loop.
\<close>

theorem history_append_trim:
  assumes "historyBounded w"
  shows "historyStep w (snd (performIpCheck en w))
         \<and> historyBounded (snd (performIpCheck en w))
         \<and> (\<forall>acts w'. run acts w = Some w' \<longrightarrow> historyBounded w')"
proof -
  have s: "historyStep w (snd (performIpCheck en w))"
    using finishCheck_history [of "beginCheck w" en]
    by (simp add: performIpCheck_def historyStep_def)
  have "run acts w0 = Some w' \<Longrightarrow> historyBounded w0 \<Longrightarrow> historyBounded w'" for acts w0 w'
  proof (induction acts arbitrary: w0)
    case Nil
    then show ?case by simp
  next
    case (Cons a acts)
    then obtain w1 where "step a w0 = Some w1" "run acts w1 = Some w'"
      by (auto split: option.splits)
    with Cons.IH [of w1] step_bounded [OF Cons.prems(2)] show ?case by blast
  qed
  with s assms show ?thesis
    using historyStep_bounded [OF s assms] by blast
qed

text \<open>A cycle that pushes two entries, and the first scheduled cycle of a fresh installation.\<close>

theorem history_append_trim_witness:
  "historyBounded world0
   \<and> historyStep world0 (snd (performIpCheck env_write_fails world0))
   \<and> historyBounded (snd (performIpCheck env_write_fails world0))
   \<and> run [Start, Settles 0 env_all_equal] world0 \<noteq> None
   \<and> historyBounded (the (run [Start, Settles 0 env_all_equal] world0))"
proof -
  have b: "historyBounded world0" by (simp add: historyBounded_def world0_def)
  have "inflight (launch FromStart world0) = [FromStart]" by (simp add: launch_def Let_def world0_def)
  then have "\<exists>w'. run [Start, Settles 0 env_all_equal] world0 = Some w'"
    by (simp split: prod.splits)
  then obtain w' where r: "run [Start, Settles 0 env_all_equal] world0 = Some w'" by blast
  note t = history_append_trim [OF b, of env_write_fails]
  from t have 1: "historyStep world0 (snd (performIpCheck env_write_fails world0))"
    "historyBounded (snd (performIpCheck env_write_fails world0))"
    by blast+
  from t r have 2: "historyBounded w'" by blast
  show ?thesis unfolding r using b 1 2 by simp
qed

text \<open>
  When detection fails the cycle throws \<open>Failed to detect IP address\<close>, the monitor is
  in error, the configuration is untouched and, the history file being readable and
  writable, exactly the entry \<open>check_failed\<close> is pushed.
\<close>

theorem detection_failure_recorded:
  assumes "fst (getCurrentIp en (effects (beginCheck w))) = Inl e"
    and "historyFile w = Some history" and "historyWritable w"
  shows
    "fst (performIpCheck en w) = Inl (Error ''Failed to detect IP address'')
     \<and> monitorStatus (snd (performIpCheck en w)) = ErrorStatus
     \<and> \<not> isChecking (snd (performIpCheck en w))
     \<and> configFile (snd (performIpCheck en w)) = configFile w
     \<and> historyFile (snd (performIpCheck en w)) =
         Some (history\<lparr>updates := take 10
           (\<lparr>entryId = uuidFailure en, timestamp = nowFailure en, oldIp = None,
             newIp = ''check_failed'', status = Failed, dnsRecordUpdated = False\<rparr> # updates history)\<rparr>)"
proof -
  obtain tr where g: "getCurrentIp en (effects (beginCheck w)) = (Inl e, tr)"
    using assms(1) by (cases "getCurrentIp en (effects (beginCheck w))") simp
  have e: "e = Error ''Failed to detect IP address''"
    using getCurrentIp_error [OF assms(1)] .
  let ?w1 = "(beginCheck w)\<lparr>effects := tr, monitorStatus := ErrorStatus\<rparr>"
  have a: "addUpdateEntry (failureEntry en) ?w1 =
      Inr (?w1\<lparr>historyFile := Some (pushEntry (failureEntry en) history),
             effects := effects ?w1 @ [HistoryWritten (pushEntry (failureEntry en) history)]\<rparr>)"
    using assms(2,3) by (intro addUpdateEntry_ok) simp_all
  show ?thesis
    unfolding performIpCheck_def finishCheck_undetected [OF g]
    using a e by (simp add: catchBlock_def Let_def pushEntry_def failureEntry_def)
qed

text \<open>Every IP source is down.\<close>

theorem detection_failure_recorded_witness:
  "fst (getCurrentIp env_all_down (effects (beginCheck world0))) = Inl (Error ''Failed to detect IP address'')
   \<and> historyFile world0 = Some \<lparr>updates = []\<rparr> \<and> historyWritable world0
   \<and> fst (performIpCheck env_all_down world0) = Inl (Error ''Failed to detect IP address'')
   \<and> monitorStatus (snd (performIpCheck env_all_down world0)) = ErrorStatus
   \<and> map newIp (updates (the (historyFile (snd (performIpCheck env_all_down world0))))) = [''check_failed'']"
proof -
  have g: "fst (getCurrentIp env_all_down (effects (beginCheck world0))) = Inl (Error ''Failed to detect IP address'')"
    by (simp add: env_all_down_fails)
  have h: "historyFile world0 = Some \<lparr>updates = []\<rparr>" "historyWritable world0"
    by (simp_all add: world0_def)
  from detection_failure_recorded [OF g h] g h show ?thesis by simp
qed

text \<open>
  A failed DNS read is tolerated: when the detected address equals the persisted one, the
  cycle ends active, returns no change and writes nothing.
\<close>

theorem dns_read_failure_tolerated:
  assumes "detects en w ip tr" and "configFile w = Some config"
    and "lastKnownIp config = Some ip" and "dnsReadResp en = Inl e"
  shows "performIpCheck en w =
           (Inr (False, ip),
            w\<lparr>isChecking := False, monitorStatus := Active,
              effects := tr @ [CfRequest ''GET'' (listUrl en) None]\<rparr>)"
proof -
  have d: "getCurrentIp en (effects (beginCheck w)) = (Inr ip, tr)"
    using assms(1) by (simp add: detects_def)
  have c: "configFile (beginCheck w) = Some config" using assms(2) by simp
  have n: "\<not> changed en config ip"
    using assms(3,4) by (simp add: changed_def dnsReadAccessible_def readOutcome_def)
  from finishCheck_unchanged [OF d c n] show ?thesis
    by (simp add: performIpCheck_def beginCheck_def)
qed

text \<open>The provider rejects the credentials of the read; the address has not changed.\<close>

theorem dns_read_failure_tolerated_witness:
  "detects (env_all_equal\<lparr>dnsReadResp := Inl (Error ''Invalid Cloudflare API credentials'')\<rparr>) world0
     ''198.51.100.1'' [ConsoleLog ''Checking IP address...'', HttpGet ipifyUrl]
   \<and> configFile world0 = Some config0 \<and> lastKnownIp config0 = Some ''198.51.100.1''
   \<and> fst (performIpCheck (env_all_equal\<lparr>dnsReadResp := Inl (Error ''Invalid Cloudflare API credentials'')\<rparr>) world0)
       = Inr (False, ''198.51.100.1'')
   \<and> monitorStatus (snd (performIpCheck
        (env_all_equal\<lparr>dnsReadResp := Inl (Error ''Invalid Cloudflare API credentials'')\<rparr>) world0)) = Active
   \<and> historyFile (snd (performIpCheck
        (env_all_equal\<lparr>dnsReadResp := Inl (Error ''Invalid Cloudflare API credentials'')\<rparr>) world0))
       = Some \<lparr>updates = []\<rparr>"
proof -
  let ?en = "env_all_equal\<lparr>dnsReadResp := Inl (Error ''Invalid Cloudflare API credentials'')\<rparr>"
  have d: "detects ?en world0 ''198.51.100.1'' [ConsoleLog ''Checking IP address...'', HttpGet ipifyUrl]"
    by (simp add: detects_def getCurrentIp_def fetchFrom_def retryOperation_def retryLoop.simps [of _ _ 0]
        httpRequest_def parseResponse_def env_all_equal_def ipDetector_ts_def
        ipifyUrl_def trim_concrete world0_def)
  have c: "configFile world0 = Some config0" by (simp add: world0_def)
  have r: "dnsReadResp ?en = Inl (Error ''Invalid Cloudflare API credentials'')" by simp
  from dns_read_failure_tolerated [OF d c config0_ip r] d c config0_ip show ?thesis
    by (simp add: world0_def)
qed

text \<open>
  Called while no cycle is suspended and the only pending timer is the one whose handle is
  in \<open>interval\<close>, \<open>stop\<close> cancels it: afterwards no timer can fire and no cycle can
  settle.
\<close>

theorem stop_cancels_pending_timer:
  assumes "inflight w = []" and "interval w = Some handle" and "fst ` set (timers w) \<subseteq> {handle}"
  shows "timers (stop w) = [] \<and> interval (stop w) = None
         \<and> (\<forall>h. step (TimerFires h) (stop w) = None)
         \<and> (\<forall>i en. step (Settles i en) (stop w) = None)"
proof -
  have "filter (\<lambda>t. fst t \<noteq> handle) (timers w) = []"
    using assms(3) by (auto simp: filter_empty_conv)
  then show ?thesis
    using assms(1,2) by (simp add: stop_def clearTimeout_def Let_def)
qed

text \<open>The monitor after its first scheduled cycle, with the next check armed in 5 minutes.\<close>

theorem stop_cancels_pending_timer_witness:
  "run [Start, Settles 0 env_all_equal] world0 \<noteq> None
   \<and> inflight (the (run [Start, Settles 0 env_all_equal] world0)) = []
   \<and> interval (the (run [Start, Settles 0 env_all_equal] world0)) = Some 0
   \<and> timers (the (run [Start, Settles 0 env_all_equal] world0)) = [(0, 300000)]
   \<and> timers (stop (the (run [Start, Settles 0 env_all_equal] world0))) = []
   \<and> step (TimerFires 0) (stop (the (run [Start, Settles 0 env_all_equal] world0))) = None"
proof -
  define w1 where "w1 = launch FromStart world0"
  have w1: "configFile w1 = Some config0" "inflight w1 = [FromStart]" "timers w1 = []" "nextHandle w1 = 0"
    by (simp_all add: w1_def launch_def beginCheck_def Let_def world0_def)
  define w1' where "w1' = w1\<lparr>inflight := removeAt 0 (inflight w1)\<rparr>"
  have c: "configFile w1' = Some config0" by (simp add: w1'_def w1)
  define w2 where "w2 = w1'\<lparr>isChecking := False, monitorStatus := Active,
        effects := (effects w1' @ [HttpGet ipifyUrl]) @ [CfRequest ''GET'' (listUrl env_all_equal) None]\<rparr>"
  have f: "finishCheck env_all_equal (w1\<lparr>inflight := removeAt 0 (inflight w1)\<rparr>) = (Inr (False, ''198.51.100.1''), w2)"
    unfolding w2_def w1'_def [symmetric]
    by (rule finishCheck_unchanged [OF env_all_equal_answers c env_all_equal_unchanged])
  have w2: "configFile w2 = Some config0" "timers w2 = []" "nextHandle w2 = 0" "inflight w2 = []"
    by (simp_all add: w2_def w1'_def w1 removeAt_def)
  define w3 where "w3 = afterCheck (Inr (False, ''198.51.100.1'')) w2"
  have s: "step (Settles 0 env_all_equal) w1 = Some w3"
    unfolding step.simps f by (simp add: w1 w3_def)
  have w3: "timers w3 = [(0, 300000)]" "inflight w3 = []" "interval w3 = Some 0"
    by (simp_all add: w3_def afterCheck_schedules [OF w2(1)] w2 timeoutDelay_def config0_def)
  have r: "run [Start, Settles 0 env_all_equal] world0 = Some w3"
    using s by (simp add: w1_def [symmetric])
  have sub: "fst ` set (timers w3) \<subseteq> {0}" by (simp add: w3)
  from stop_cancels_pending_timer [OF w3(2,3) sub] r w3 show ?thesis by simp
qed

text \<open>
  The timer callback does not test the single-flight flag: a timer that fires while the
  flag is set starts a cycle beside the one that is suspended.
\<close>

theorem timer_ignores_single_flight:
  assumes "isChecking w" and "handle \<in> fst ` set (timers w)"
  shows "step (TimerFires handle) w = Some (launch FromTimer (clearTimeout handle w))
         \<and> inflight (launch FromTimer (clearTimeout handle w)) = inflight w @ [FromTimer]"
  using assms by (simp add: launch_def beginCheck_def clearTimeout_def Let_def)

text \<open>The timer fires during a forced cycle: two cycles are suspended at once.\<close>

theorem timer_ignores_single_flight_witness:
  "isChecking world_forced \<and> 0 \<in> fst ` set (timers world_forced)
   \<and> inflight world_forced = [FromForce]
   \<and> map_option inflight (step (TimerFires 0) world_forced) = Some [FromForce, FromTimer]"
proof -
  have a: "isChecking world_forced" "0 \<in> fst ` set (timers world_forced)"
     "inflight world_forced = [FromForce]"
    by (simp_all add: world_forced_def launch_def beginCheck_def Let_def world0_def)
  from timer_ignores_single_flight [OF a(1,2)] a show ?thesis by simp
qed

end
